theory Spec2Isabelle
  imports Complex_Main "HOL-Library.AList" "HOL-Library.Log_Nat"
begin

section \<open>Python values: exceptions and containers\<close>

text \<open>
  Every \<^verbatim>\<open>raise\<close>, failed \<^verbatim>\<open>assert\<close>, missing key and out-of-range index of the
  Python source is a value \<open>Inl e\<close> of the result type \<open>error + 'a\<close>.
\<close>

datatype error =
    IndexError | KeyError | AssertionError | TypeError | ValueError
  | AttributeError | UnboundLocalError | ValueDuplicationError

definition bnd :: "error + 'a \<Rightarrow> ('a \<Rightarrow> error + 'b) \<Rightarrow> error + 'b" where
  "bnd m f = (case m of Inl e \<Rightarrow> Inl e | Inr x \<Rightarrow> f x)"

definition is_error :: "error + 'a \<Rightarrow> bool" where
  "is_error r = (case r of Inl e \<Rightarrow> True | Inr x \<Rightarrow> False)"

text \<open>\<^verbatim>\<open>functools.reduce(f, xs)\<close> without an initial value: a TypeError on the empty list.\<close>

definition reduce :: "('a \<Rightarrow> 'a \<Rightarrow> 'a) \<Rightarrow> 'a list \<Rightarrow> error + 'a" where
  "reduce f xs = (case xs of [] \<Rightarrow> Inl TypeError | x # r \<Rightarrow> Inr (foldl f x r))"

text \<open>\<^verbatim>\<open>[m[k] for k in ks]\<close>: a KeyError at the first key the dictionary does not hold.\<close>

fun lookup_all :: "('k \<Rightarrow> 'v option) \<Rightarrow> 'k list \<Rightarrow> error + 'v list" where
  "lookup_all m [] = Inr []"
| "lookup_all m (k # ks) =
     (case m k of
        None \<Rightarrow> Inl KeyError
      | Some v \<Rightarrow> (case lookup_all m ks of Inl e \<Rightarrow> Inl e | Inr vs \<Rightarrow> Inr (v # vs)))"

text \<open>
  A Python \<^verbatim>\<open>dict\<close> (and a \<^verbatim>\<open>bidict\<close>) is an association list in insertion order with
  distinct keys; \<open>AList.update\<close> is item assignment (an existing key keeps its place).
  \<open>inv_of\<close> is the \<^verbatim>\<open>.inv\<close> view of a bidict.
\<close>

definition inv_of :: "('k \<times> 'v) list \<Rightarrow> 'v \<Rightarrow> 'k option" where
  "inv_of d = map_of (map (\<lambda>(k, v). (v, k)) d)"

text \<open>\<^verbatim>\<open>bidict(d)\<close>: two keys with one value raise ValueDuplicationError.\<close>

definition bidict :: "('k \<times> 'v) list \<Rightarrow> error + ('k \<times> 'v) list" where
  "bidict d = (if distinct (map snd d) then Inr d else Inl ValueDuplicationError)"

text \<open>\<^verbatim>\<open>{state: values[index] for index, state in enumerate(states)}\<close>\<close>

fun dict_enumerate :: "'v list \<Rightarrow> nat \<Rightarrow> 'k list \<Rightarrow> ('k \<times> 'v) list \<Rightarrow> error + ('k \<times> 'v) list" where
  "dict_enumerate vals i [] acc = Inr acc"
| "dict_enumerate vals i (s # ss) acc =
     (if i < length vals then dict_enumerate vals (Suc i) ss (AList.update s (vals ! i) acc)
      else Inl IndexError)"

text \<open>\<^verbatim>\<open>str(n)\<close> for a non-negative integer, as used in f-strings.\<close>

definition digit_char :: "nat \<Rightarrow> char" where
  "digit_char d = ''0123456789'' ! d"

function show_nat :: "nat \<Rightarrow> string" where
  "show_nat n = (if n < 10 then [digit_char n] else show_nat (n div 10) @ [digit_char (n mod 10)])"
  by pat_completeness auto
termination
  by (relation "measure id") auto

declare show_nat.simps [simp del]

text \<open>\<^verbatim>\<open>itertools.product([1, 0], repeat=n)\<close>: the first component changes slowest.\<close>

fun product10 :: "nat \<Rightarrow> bool list list" where
  "product10 0 = [[]]"
| "product10 (Suc n) = map ((#) True) (product10 n) @ map ((#) False) (product10 n)"

section \<open>The decision-diagram substrate\<close>

text \<open>
  Modelled from the spec: the decision-diagram package (CUDD, reached through the
  \<^verbatim>\<open>cudd\<close> Python module) is an external dependency whose code is not part of the
  repository. The spec describes it as canonical Boolean-function nodes in two flavours,
  Boolean-valued and numeric-terminal, with the operations and, or, not and swap-variables.
  A canonical diagram is determined by the function it denotes, so a diagram over a manager
  with \<open>N\<close> variables is modelled by the table of its terminal values, one entry for each
  assignment of the \<open>N\<close> variables (in the order of \<open>product10 N\<close>). Equality of tables is
  equality of diagrams. A variable is named by its index in the manager; \<open>addVar N i\<close> is
  its diagram. On 0-1 diagrams \<open>dd_and\<close>, \<open>dd_or\<close> and \<open>dd_not\<close> are conjunction,
  disjunction and complement; \<open>dd_and\<close> with a constant tags a relation with a weight
  terminal, and \<open>dd_or\<close> keeps the larger terminal.
\<close>

type_synonym dd = "nat list"

definition addConst :: "nat \<Rightarrow> nat \<Rightarrow> dd" where
  "addConst N c = map (\<lambda>\<rho>. c) (product10 N)"

definition addZero :: "nat \<Rightarrow> dd" where
  "addZero N = addConst N 0"

definition addOne :: "nat \<Rightarrow> dd" where
  "addOne N = addConst N 1"

definition addVar :: "nat \<Rightarrow> nat \<Rightarrow> dd" where
  "addVar N i = map (\<lambda>\<rho>. if \<rho> ! i then 1 else 0) (product10 N)"

definition dd_and :: "dd \<Rightarrow> dd \<Rightarrow> dd" where
  "dd_and f g = map (\<lambda>(a, b). a * b) (zip f g)"

definition dd_or :: "dd \<Rightarrow> dd \<Rightarrow> dd" where
  "dd_or f g = map (\<lambda>(a, b). max a b) (zip f g)"

definition dd_not :: "dd \<Rightarrow> dd" where
  "dd_not f = map (\<lambda>a. if a = 0 then 1 else 0) f"

definition isZero :: "dd \<Rightarrow> bool" where
  "isZero f = list_all (\<lambda>a. a = 0) f"

text \<open>The literal of variable \<open>v\<close> for one bit of a pattern, and the literals of a pattern.\<close>

definition literal :: "nat \<Rightarrow> nat \<Rightarrow> bool \<Rightarrow> dd" where
  "literal N v b = (if b then addVar N v else dd_not (addVar N v))"

definition literals :: "nat \<Rightarrow> nat list \<Rightarrow> bool list \<Rightarrow> dd list" where
  "literals N vars bits = map (\<lambda>(v, b). literal N v b) (zip vars bits)"

section \<open>FrankaWorld: label variables and the weight table\<close>

text \<open>
  \<^verbatim>\<open>FrankaWorld._create_symbolic_lbl_vars\<close>. The manager is the list of the names of its
  variables; the new variables take the next free indices. \<^verbatim>\<open>math.log2\<close> raises a
  ValueError at 0. \<^verbatim>\<open>math.ceil(math.log2(n))\<close> is computed in double precision by the
  code and over the reals here. The two agree for lists of at most \<open>2 ^ 49\<close> entries; from
  \<open>2 ^ 49 + 1\<close> entries on the double nearest to the logarithm can be the integer below it,
  and the code then allocates one variable less than this definition. Every statement
  about this definition therefore carries the bound \<open>length state_lbls \<le> 2 ^ 49\<close>.
\<close>

definition create_symbolic_lbl_vars ::
  "string list \<Rightarrow> 'a list \<Rightarrow> string \<Rightarrow> bool \<Rightarrow> error + (nat list \<times> string list)" where
  "create_symbolic_lbl_vars mgr state_lbls state_var_name add_flag =
     (let num_of_sym_vars = length mgr in
      if length state_lbls = 0 then Inl ValueError
      else
        let num = nat \<lceil>log 2 (real (length state_lbls))\<rceil>;
            num = (if num = 0 then num + 1 else num)
        in Inr (map (\<lambda>num_var. num_var + num_of_sym_vars) [0..<num],
                mgr @ map (\<lambda>num_var. state_var_name @ show_nat num_var) [0..<num]))"

section \<open>Strings and the regular expressions of the source\<close>

text \<open>\<^verbatim>\<open>sub in s\<close> on strings.\<close>

fun is_prefix :: "string \<Rightarrow> string \<Rightarrow> bool" where
  "is_prefix [] s = True"
| "is_prefix (a # as) [] = False"
| "is_prefix (a # as) (c # cs) = (a = c \<and> is_prefix as cs)"

fun in_str :: "string \<Rightarrow> string \<Rightarrow> bool" where
  "in_str sub [] = (sub = [])"
| "in_str sub (c # cs) = (is_prefix sub (c # cs) \<or> in_str sub cs)"

text \<open>
  The characters that \<^verbatim>\<open>str.split()\<close> treats as separators (\<^verbatim>\<open>str.isspace\<close>) among the
  256 characters of the model: tab to carriage return, the four separators U+001C to
  U+001F, the space, U+0085 and U+00A0.
\<close>

definition is_space :: "char \<Rightarrow> bool" where
  "is_space c = (c \<in> set [CHR '' '', CHR 0x09, CHR 0x0A, CHR 0x0B, CHR 0x0C, CHR 0x0D,
                            CHR 0x1C, CHR 0x1D, CHR 0x1E, CHR 0x1F, CHR 0x85, CHR 0xA0])"

definition is_digit :: "char \<Rightarrow> bool" where
  "is_digit c = (c \<in> set ''0123456789'')"

text \<open>The character classes \<^verbatim>\<open>[l|L]\<close> and \<^verbatim>\<open>[b|B]\<close>: the bar is a member of the class.\<close>

definition loc_class :: "char \<Rightarrow> bool" where
  "loc_class c = (c \<in> set ''l|L'')"

definition box_class :: "char \<Rightarrow> bool" where
  "box_class c = (c \<in> set ''b|B'')"

text \<open>
  \<^verbatim>\<open>re.search("[..][\d]+", s)\<close>: the leftmost character of the class that is followed by
  a digit, with the longest run of digits after it; \<open>None\<close> when there is no match.
\<close>

fun re_search :: "(char \<Rightarrow> bool) \<Rightarrow> string \<Rightarrow> string option" where
  "re_search cls [] = None"
| "re_search cls (c # cs) =
     (if cls c \<and> takeWhile is_digit cs \<noteq> [] then Some (c # takeWhile is_digit cs)
      else re_search cls cs)"

text \<open>\<^verbatim>\<open>re.findall("[..][\d]+", s)\<close>: the matches from left to right, without overlap.\<close>

function re_findall :: "(char \<Rightarrow> bool) \<Rightarrow> string \<Rightarrow> string list" where
  "re_findall cls [] = []"
| "re_findall cls (c # cs) =
     (if cls c \<and> takeWhile is_digit cs \<noteq> []
      then (c # takeWhile is_digit cs) # re_findall cls (dropWhile is_digit cs)
      else re_findall cls cs)"
  by pat_completeness auto
termination
  by (relation "measure (\<lambda>(cls, s). length s)")
     (auto simp: length_dropWhile_le less_Suc_eq_le)

text \<open>\<^verbatim>\<open>re.search("\d+", s)\<close>: the first maximal run of digits.\<close>

definition re_search_digits :: "string \<Rightarrow> string option" where
  "re_search_digits s =
     (let r = dropWhile (\<lambda>c. \<not> is_digit c) s
      in if r = [] then None else Some (takeWhile is_digit r))"

text \<open>\<^verbatim>\<open>int(s)\<close> on a string of decimal digits.\<close>

definition digit_val :: "char \<Rightarrow> nat" where
  "digit_val c = length (takeWhile (\<lambda>d. d \<noteq> c) ''0123456789'')"

definition int_of_digits :: "string \<Rightarrow> nat" where
  "int_of_digits s = foldl (\<lambda>a c. 10 * a + digit_val c) 0 s"

text \<open>
  \<^verbatim>\<open>name.split()[0][1:]\<close>: the first whitespace-separated word of an operator name
  without its opening bracket; an IndexError when the name holds no word.
\<close>

definition action_of_name :: "string \<Rightarrow> error + string" where
  "action_of_name nm =
     (let w = takeWhile (\<lambda>c. \<not> is_space c) (dropWhile is_space nm)
      in if w = [] then Inl IndexError else Inr (drop 1 w))"

section \<open>Explicit transition system: box and location of a string\<close>

text \<open>
  \<^verbatim>\<open>FiniteTransitionSystem._get_box_location\<close>. A missing location or box gives the
  empty string (the AttributeError is caught); the digits of an empty box string are then
  looked up on \<^verbatim>\<open>None\<close>, an AttributeError that is not caught.
\<close>

definition get_box_location :: "string \<Rightarrow> error + (nat \<times> string)" where
  "get_box_location box_location_state_str =
     (let loc_state = (case re_search loc_class box_location_state_str of
                         None \<Rightarrow> [] | Some m \<Rightarrow> m);
          box_state = (case re_search box_class box_location_state_str of
                         None \<Rightarrow> [] | Some m \<Rightarrow> m)
      in case re_search_digits box_state of
           None \<Rightarrow> Inl AttributeError
         | Some ds \<Rightarrow> Inr (int_of_digits ds, loc_state))"

text \<open>
  \<^verbatim>\<open>FiniteTransitionSystem._get_multiple_box_location\<close>. Here the handler of a missing box
  only prints, so the next line reads a variable that was never bound.
\<close>

definition get_multiple_box_location :: "string \<Rightarrow> error + (nat \<times> string list)" where
  "get_multiple_box_location multiple_box_location_str =
     (let loc_states = re_findall loc_class multiple_box_location_str
      in case re_search box_class multiple_box_location_str of
           None \<Rightarrow> Inl UnboundLocalError
         | Some box_state \<Rightarrow>
             (case re_search_digits box_state of
                None \<Rightarrow> Inl AttributeError
              | Some ds \<Rightarrow> Inr (int_of_digits ds, loc_states)))"

section \<open>Grounded operators and the weight table\<close>

text \<open>
  A grounded operator of the planning task. Its three fact sets are frozensets; they are
  listed in some order, and the source only takes conjunctions, sorted tuples and sets of
  them.
\<close>

record operator =
  name :: string
  preconditions :: "string list"
  add_effects :: "string list"
  del_effects :: "string list"

text \<open>\<^verbatim>\<open>FrankaWorld._create_weight_dict\<close>, with the dictionary under construction.\<close>

fun create_weight_dict ::
  "(string \<times> nat) list \<Rightarrow> operator list \<Rightarrow> (string \<times> nat) list \<Rightarrow> error + (string \<times> nat) list" where
  "create_weight_dict weight_dict [] new_weight_dict = Inr new_weight_dict"
| "create_weight_dict weight_dict (op # ops) new_weight_dict =
     (case action_of_name (name op) of
        Inl e \<Rightarrow> Inl e
      | Inr generic_action \<Rightarrow>
          (case map_of weight_dict generic_action of
             None \<Rightarrow> Inl KeyError
           | Some weight \<Rightarrow>
               create_weight_dict weight_dict ops (AList.update (name op) weight new_weight_dict)))"

section \<open>State encoder: \<open>_create_sym_var_map\<close>\<close>

text \<open>
  The loop of \<open>_create_sym_var_map\<close> over the items of the pattern dictionary. Each key's
  bit pattern is turned into the conjunction of the literals of the current variables and
  of the next variables; storing a diagram that another key already holds raises
  ValueDuplicationError (the maps are bidicts). A next-variable list shorter than the
  pattern is an IndexError.
\<close>

fun fill_maps ::
  "nat \<Rightarrow> nat list \<Rightarrow> nat list \<Rightarrow> ('k \<times> bool list) list
    \<Rightarrow> ('k \<times> dd) list \<Rightarrow> ('k \<times> dd) list \<Rightarrow> error + (('k \<times> dd) list \<times> ('k \<times> dd) list)" where
  "fill_maps N xs ys [] node_curr node_next = Inr (node_curr, node_next)"
| "fill_maps N xs ys ((key, val) # rest) node_curr node_next =
     (if length ys < length val then Inl IndexError
      else
        case reduce dd_and (literals N xs val) of
          Inl e \<Rightarrow> Inl e
        | Inr bool_add_func_curr \<Rightarrow>
            (case reduce dd_and (literals N ys val) of
               Inl e \<Rightarrow> Inl e
             | Inr bool_add_func_nxt \<Rightarrow>
                 if bool_add_func_curr \<in> snd ` set node_curr then Inl ValueDuplicationError
                 else if bool_add_func_nxt \<in> snd ` set node_next then Inl ValueDuplicationError
                 else fill_maps N xs ys rest
                        (node_curr @ [(key, bool_add_func_curr)])
                        (node_next @ [(key, bool_add_func_nxt)])))"

text \<open>
  \<open>_create_sym_var_map\<close> of both transition-system classes: the candidates are the facts
  in the base class and the state tuples \<open>ts_states\<close> in the Franka class. The result is
  the pair \<open>(predicate_add_sym_map_curr, predicate_add_sym_map_nxt)\<close>. The parallel maps
  of Boolean patterns hold the same cubes and are left out.
\<close>

definition create_sym_var_map ::
  "nat \<Rightarrow> nat list \<Rightarrow> nat list \<Rightarrow> 'k list \<Rightarrow> error + (('k \<times> dd) list \<times> ('k \<times> dd) list)" where
  "create_sym_var_map N xs ys candidates =
     (let boolean_str = product10 (length xs) in
      bnd (dict_enumerate boolean_str 0 candidates []) (\<lambda>d.
      bnd (bidict d) (\<lambda>node_int_map_curr.
        if \<not> length node_int_map_curr \<le> length boolean_str then Inl AssertionError
        else fill_maps N xs ys node_int_map_curr [] [])))"

section \<open>The symbolic weighted transition system (direct mode)\<close>

text \<open>
  The attributes of \<^verbatim>\<open>SymbolicWeightedTransitionSystem\<close>. The candidates \<open>'k\<close> of the
  encoder are fact strings here. The manager is the list of its variables' names, and its
  length is the number \<open>N\<close> of variables of every diagram. An attribute that Python may
  leave at \<^verbatim>\<open>None\<close> is an option.
\<close>

record 'k sym_ts =
  sym_add_vars_curr :: "nat list"
  sym_add_vars_next :: "nat list"
  sym_add_vars_lbl :: "nat list"
  init :: "string list"
  goal :: "string list"
  facts :: "string list"
  operators :: "operator list"
  manager :: "string list"
  weight_dict :: "(string \<times> dd) list"
  tr_action_idx_map :: "(string \<times> nat) list"
  sym_add_init_states :: "dd option"
  sym_add_goal_states :: "dd option"
  sym_add_state_labels :: dd
  sym_tr_actions :: "dd list"
  predicate_add_sym_map_curr :: "('k \<times> dd) list"
  predicate_add_sym_map_nxt :: "('k \<times> dd) list"
  predicate_add_sym_map_lbl :: "(string \<times> dd) list"

text \<open>\<open>_initialize_adds_for_actions\<close>, the same in both classes.\<close>

definition initialize_adds_for_actions :: "('k, 'z) sym_ts_scheme \<Rightarrow> ('k, 'z) sym_ts_scheme" where
  "initialize_adds_for_actions self =
     self\<lparr>tr_action_idx_map := zip (map fst (weight_dict self)) [0..<length (weight_dict self)],
          sym_tr_actions := replicate (length (weight_dict self)) (addZero (length (manager self)))\<rparr>"

text \<open>
  A binary diagram operator applied to Python values that may be \<^verbatim>\<open>None\<close> (what
  \<^verbatim>\<open>dict.get\<close> returns for a missing key): a TypeError, and \<^verbatim>\<open>reduce\<close> over such values.
\<close>

definition py_binop :: "(dd \<Rightarrow> dd \<Rightarrow> dd) \<Rightarrow> dd option \<Rightarrow> dd option \<Rightarrow> error + dd option" where
  "py_binop f a b = (case a of None \<Rightarrow> Inl TypeError
                     | Some x \<Rightarrow> (case b of None \<Rightarrow> Inl TypeError | Some y \<Rightarrow> Inr (Some (f x y))))"

fun reduce_opt :: "(dd \<Rightarrow> dd \<Rightarrow> dd) \<Rightarrow> dd option list \<Rightarrow> error + dd option" where
  "reduce_opt f [] = Inl TypeError"
| "reduce_opt f [a] = Inr a"
| "reduce_opt f (a # b # r) =
     (case py_binop f a b of Inl e \<Rightarrow> Inl e | Inr c \<Rightarrow> reduce_opt f (c # r))"

text \<open>\<open>_initialize_sym_init_goal_states\<close> of the base class.\<close>

definition initialize_sym_init_goal_states :: "string sym_ts \<Rightarrow> error + string sym_ts" where
  "initialize_sym_init_goal_states self =
     (let init_list = map (map_of (predicate_add_sym_map_curr self)) (init self);
          goal_list = map (map_of (predicate_add_sym_map_curr self)) (goal self)
      in bnd (reduce_opt dd_or init_list) (\<lambda>i.
         bnd (reduce_opt dd_or goal_list) (\<lambda>g.
           Inr (self\<lparr>sym_add_init_states := i, sym_add_goal_states := g\<rparr>))))"

text \<open>\<^verbatim>\<open>SymbolicWeightedTransitionSystem.__init__\<close>\<close>

definition SymbolicWeightedTransitionSystem ::
  "nat list \<Rightarrow> nat list \<Rightarrow> nat list \<Rightarrow> string list \<Rightarrow> string list \<Rightarrow> string list
    \<Rightarrow> operator list \<Rightarrow> (string \<times> dd) list \<Rightarrow> string list \<Rightarrow> error + string sym_ts" where
  "SymbolicWeightedTransitionSystem curr_states next_states lbl_states task_init task_goals
      task_facts task_operators weight_dict0 manager0 =
     (let N = length manager0;
          self = \<lparr>sym_add_vars_curr = curr_states, sym_add_vars_next = next_states,
                  sym_add_vars_lbl = lbl_states, init = task_init, goal = task_goals,
                  facts = task_facts, operators = task_operators, manager = manager0,
                  weight_dict = weight_dict0, tr_action_idx_map = [],
                  sym_add_init_states = Some (addZero N), sym_add_goal_states = Some (addZero N),
                  sym_add_state_labels = addZero N, sym_tr_actions = [],
                  predicate_add_sym_map_curr = [], predicate_add_sym_map_nxt = [],
                  predicate_add_sym_map_lbl = []\<rparr>
      in bnd (create_sym_var_map N curr_states next_states task_facts) (\<lambda>(m_curr, m_nxt).
           initialize_sym_init_goal_states
             (initialize_adds_for_actions
                (self\<lparr>predicate_add_sym_map_curr := m_curr, predicate_add_sym_map_nxt := m_nxt\<rparr>))))"

text \<open>
  The three branches \<^verbatim>\<open>if len(l) != 0: reduce(lambda a, b: a & b, l) else: default\<close> of
  \<open>build_actions_tr_func_weighted\<close>.
\<close>

definition sym_of_list :: "dd \<Rightarrow> dd option list \<Rightarrow> error + dd option" where
  "sym_of_list dflt l = (if length l \<noteq> 0 then reduce_opt dd_and l else Inr (Some dflt))"

text \<open>
  \<open>build_actions_tr_func_weighted\<close>. The constants \<^verbatim>\<open>bddOne()\<close> and \<^verbatim>\<open>bddZero()\<close> are the
  diagrams one and zero, and \<^verbatim>\<open>negate()\<close> on a zero diagram gives the diagram one, as the
  comment of the source says. The result is the updated object and the returned action name.
\<close>

definition build_actions_tr_func_weighted :: "string sym_ts \<Rightarrow> operator \<Rightarrow> error + (string sym_ts \<times> string)" where
  "build_actions_tr_func_weighted self curr_edge_action =
     (let N = length (manager self);
          actions = map fst (weight_dict self);
          pre_list = map (map_of (predicate_add_sym_map_curr self)) (preconditions curr_edge_action);
          add_list = map (map_of (predicate_add_sym_map_nxt self)) (add_effects curr_edge_action);
          del_list = map (map_of (predicate_add_sym_map_nxt self)) (del_effects curr_edge_action)
      in bnd (sym_of_list (addOne N) pre_list) (\<lambda>pre_sym.
         bnd (sym_of_list (addOne N) add_list) (\<lambda>add_sym.
         bnd (sym_of_list (addZero N) del_list) (\<lambda>del_sym.
         bnd (action_of_name (name curr_edge_action)) (\<lambda>action.
           if action \<notin> set actions then Inl AssertionError
           else
             case pre_sym of
               None \<Rightarrow> Inl AttributeError
             | Some pre0 \<Rightarrow>
                 (let pre = (if isZero pre0 then dd_not pre0 else pre0) in
                  case add_sym of
                    None \<Rightarrow> Inl AttributeError
                  | Some add0 \<Rightarrow>
                      (let add = (if isZero add0 then dd_not add0 else add0) in
                       case map_of (tr_action_idx_map self) action of
                         None \<Rightarrow> Inl TypeError
                       | Some idx \<Rightarrow>
                           if \<not> idx < length (sym_tr_actions self) then Inl IndexError
                           else
                             case del_sym of
                               None \<Rightarrow> Inl TypeError
                             | Some del \<Rightarrow>
                                 (case map_of (weight_dict self) action of
                                    None \<Rightarrow> Inl KeyError
                                  | Some w \<Rightarrow>
                                      Inr (self\<lparr>sym_tr_actions :=
                                             (sym_tr_actions self)
                                               [idx := dd_or (sym_tr_actions self ! idx)
                                                  (dd_and (dd_and (dd_and pre add) (dd_not del)) w)]\<rparr>,
                                           action)))))))))"

text \<open>A loop whose body may raise.\<close>

fun foldM :: "('a \<Rightarrow> 's \<Rightarrow> error + 's) \<Rightarrow> 'a list \<Rightarrow> 's \<Rightarrow> error + 's" where
  "foldM f [] s = Inr s"
| "foldM f (x # xs) s = (case f x s of Inl e \<Rightarrow> Inl e | Inr s' \<Rightarrow> foldM f xs s')"

text \<open>\<open>create_weighted_transition_system\<close>: every operator of the task in turn.\<close>

definition create_weighted_transition_system :: "string sym_ts \<Rightarrow> error + string sym_ts" where
  "create_weighted_transition_system self =
     foldM (\<lambda>action s. bnd (build_actions_tr_func_weighted s action) (\<lambda>(s', a). Inr s'))
       (operators self) self"

section \<open>The symbolic weighted Franka transition system (incremental mode)\<close>

text \<open>
  \<^verbatim>\<open>SymbolicWeightedFrankaTransitionSystem\<close> has the attributes above, with state tuples as
  the candidates of the encoder, and two more: the candidate states \<open>ts_states\<close> and the
  bidict \<open>pred_int_map\<close> from predicates to their integer ids.
\<close>

record franka_ts = "int list sym_ts" +
  ts_states :: "int list list"
  pred_int_map :: "(string \<times> int) list"

text \<open>\<open>get_tuple_from_state\<close>: the sorted ids of a collection of predicates.\<close>

definition get_tuple_from_state :: "(string \<times> int) list \<Rightarrow> string list \<Rightarrow> error + int list" where
  "get_tuple_from_state pim preds =
     bnd (lookup_all (map_of pim) preds) (\<lambda>int_tuple. Inr (sort int_tuple))"

text \<open>\<open>get_state_from_tuple\<close>, on a tuple (the only kind of argument the class passes).\<close>

definition get_state_from_tuple :: "(string \<times> int) list \<Rightarrow> int list \<Rightarrow> error + string list" where
  "get_state_from_tuple pim state_tuple = lookup_all (inv_of pim) state_tuple"

text \<open>\<open>_initialize_sym_init_goal_states\<close> of the Franka class.\<close>

definition initialize_sym_init_goal_states_franka :: "franka_ts \<Rightarrow> error + franka_ts" where
  "initialize_sym_init_goal_states_franka self =
     bnd (get_tuple_from_state (pred_int_map self) (init self)) (\<lambda>init_tuple.
     bnd (get_tuple_from_state (pred_int_map self) (goal self)) (\<lambda>goal_tuple.
       let self = self\<lparr>sym_add_init_states := map_of (predicate_add_sym_map_curr self) init_tuple,
                       sym_add_goal_states := None\<rparr>
       in if sym_add_init_states self = None then Inl AssertionError else Inr self))"

text \<open>\<^verbatim>\<open>SymbolicWeightedFrankaTransitionSystem.__init__\<close>\<close>

definition SymbolicWeightedFrankaTransitionSystem ::
  "nat list \<Rightarrow> nat list \<Rightarrow> nat list \<Rightarrow> string list \<Rightarrow> string list \<Rightarrow> string list
    \<Rightarrow> operator list \<Rightarrow> (string \<times> dd) list \<Rightarrow> (string \<times> int) list \<Rightarrow> int list list
    \<Rightarrow> string list \<Rightarrow> error + franka_ts" where
  "SymbolicWeightedFrankaTransitionSystem curr_states next_states lbl_states task_init task_goals
      task_facts task_operators weight_dict0 ts_state_map ts_states0 manager0 =
     (let N = length manager0;
          self = \<lparr>sym_add_vars_curr = curr_states, sym_add_vars_next = next_states,
                  sym_add_vars_lbl = lbl_states, init = task_init, goal = task_goals,
                  facts = task_facts, operators = task_operators, manager = manager0,
                  weight_dict = weight_dict0, tr_action_idx_map = [],
                  sym_add_init_states = Some (addZero N), sym_add_goal_states = Some (addZero N),
                  sym_add_state_labels = addZero N, sym_tr_actions = [],
                  predicate_add_sym_map_curr = [], predicate_add_sym_map_nxt = [],
                  predicate_add_sym_map_lbl = [],
                  ts_states = ts_states0, pred_int_map = ts_state_map\<rparr>
      in bnd (create_sym_var_map N curr_states next_states ts_states0) (\<lambda>(m_curr, m_nxt).
         bnd (bidict m_curr) (\<lambda>m_curr.
         bnd (bidict m_nxt) (\<lambda>m_nxt.
           initialize_sym_init_goal_states_franka
             (initialize_adds_for_actions
                (self\<lparr>predicate_add_sym_map_curr := m_curr, predicate_add_sym_map_nxt := m_nxt\<rparr>))))))"

text \<open>
  \<open>_check_exist_constraint\<close>. The destination of a transfer is the second location of the
  action name, that of a release its only location; an action of neither kind leaves
  \<^verbatim>\<open>box_id\<close> unbound. \<open>remove1\<close> is \<^verbatim>\<open>list.remove\<close>, a ValueError when the box is absent.
\<close>

definition exist_constraint_target :: "string \<Rightarrow> error + (nat \<times> string)" where
  "exist_constraint_target action_name =
     (if in_str ''transfer'' action_name then
        bnd (get_multiple_box_location action_name) (\<lambda>(box_id, locs).
          if 1 < length locs then Inr (box_id, locs ! 1) else Inl IndexError)
      else if in_str ''release'' action_name then
        get_box_location action_name
      else Inl UnboundLocalError)"

definition on_pred :: "string \<Rightarrow> string \<Rightarrow> string" where
  "on_pred bid dloc = ''(on '' @ bid @ '' '' @ dloc @ '')''"

definition check_exist_constraint ::
  "(string \<times> int) list \<Rightarrow> string list \<Rightarrow> int list \<Rightarrow> string \<Rightarrow> error + bool" where
  "check_exist_constraint pim boxes curr_state_lbl action_name =
     bnd (exist_constraint_target action_name) (\<lambda>(box_id, dloc).
       if ''b'' @ show_nat box_id \<notin> set boxes then Inl ValueError
       else
         let tmp_copy = remove1 (''b'' @ show_nat box_id) boxes in
         bnd (lookup_all (map_of pim) (map (\<lambda>bid. on_pred bid dloc) tmp_copy)) (\<lambda>on_preds.
           if set on_preds \<inter> set curr_state_lbl \<noteq> {} then Inr False else Inr True))"

text \<open>
  \<open>get_conds_from_state\<close>: the world configuration of a state is its \<open>on\<close> and
  \<open>gripper\<close> predicates, the robot configuration the rest.
\<close>

definition is_world_pred :: "string \<Rightarrow> bool" where
  "is_world_pred pred = (in_str ''on'' pred \<or> in_str ''gripper'' pred)"

fun conds_loop :: "(string \<times> int) list \<Rightarrow> bool \<Rightarrow> bool \<Rightarrow> string list \<Rightarrow> error + int list" where
  "conds_loop pim only_world_conf only_robot_conf [] = Inr []"
| "conds_loop pim only_world_conf only_robot_conf (pred # preds) =
     (if (only_world_conf \<and> is_world_pred pred)
         \<or> (\<not> only_world_conf \<and> only_robot_conf \<and> \<not> is_world_pred pred)
      then (case map_of pim pred of
              None \<Rightarrow> Inl KeyError
            | Some i \<Rightarrow> (case conds_loop pim only_world_conf only_robot_conf preds of
                          Inl e \<Rightarrow> Inl e | Inr int_tuple \<Rightarrow> Inr (i # int_tuple)))
      else conds_loop pim only_world_conf only_robot_conf preds)"

definition get_conds_from_state ::
  "(string \<times> int) list \<Rightarrow> int list \<Rightarrow> bool \<Rightarrow> bool \<Rightarrow> error + int list" where
  "get_conds_from_state pim state_tuple only_world_conf only_robot_conf =
     bnd (get_state_from_tuple pim state_tuple) (\<lambda>preds.
     bnd (conds_loop pim only_world_conf only_robot_conf preds) (\<lambda>int_tuple.
       Inr (sort int_tuple)))"

text \<open>
  \<open>_create_sym_state_label_map\<close>: the loop over one box's predicates and its patterns,
  then the loop over the boxes. The variables of a box are those label variables whose
  name holds the box id followed by an underscore; the gripper has the last label
  variable. The map under construction is a plain dictionary, made a bidict at the end.
\<close>

fun fill_lbl_map :: "nat \<Rightarrow> nat list \<Rightarrow> (string \<times> bool list) list \<Rightarrow> (string \<times> dd) list
    \<Rightarrow> error + (string \<times> dd) list" where
  "fill_lbl_map N vars [] node_lbl = Inr node_lbl"
| "fill_lbl_map N vars ((key, val) # rest) node_lbl =
     (case reduce dd_and (literals N vars val) of
        Inl e \<Rightarrow> Inl e
      | Inr bool_add_func_curr \<Rightarrow>
          if bool_add_func_curr \<in> snd ` set node_lbl then Inl ValueDuplicationError
          else fill_lbl_map N vars rest (node_lbl @ [(key, bool_add_func_curr)]))"

definition box_lbl_vars :: "string list \<Rightarrow> nat list \<Rightarrow> string \<Rightarrow> error + nat list" where
  "box_lbl_vars mgr lbl_vars b_id =
     (if b_id = ''gripper''
      then (if lbl_vars = [] then Inl IndexError else Inr [last lbl_vars])
      else Inr (filter (\<lambda>bvar. in_str (b_id @ ''_'') (mgr ! bvar)) lbl_vars))"

definition box_lbl_map ::
  "string list \<Rightarrow> nat list \<Rightarrow> string \<Rightarrow> string list \<Rightarrow> error + (string \<times> dd) list" where
  "box_lbl_map mgr lbl_vars b_id preds =
     bnd (box_lbl_vars mgr lbl_vars b_id) (\<lambda>tmp_vars_list.
       let boolean_str = product10 (length tmp_vars_list) in
       bnd (dict_enumerate boolean_str 0 preds []) (\<lambda>d.
       bnd (bidict d) (\<lambda>node_int_map_lbl.
         if \<not> length node_int_map_lbl \<le> length boolean_str then Inl AssertionError
         else fill_lbl_map (length mgr) tmp_vars_list node_int_map_lbl [])))"

definition create_sym_state_label_map ::
  "franka_ts \<Rightarrow> (string \<times> string list) list \<Rightarrow> error + franka_ts" where
  "create_sym_state_label_map self domain_lbls =
     bnd (foldM (\<lambda>(b_id, preds) lbl_map.
                   bnd (box_lbl_map (manager self) (sym_add_vars_lbl self) b_id preds) (\<lambda>node_int_map_lbl.
                     Inr (foldl (\<lambda>m (k, v). AList.update k v m) lbl_map node_int_map_lbl)))
                domain_lbls (predicate_add_sym_map_lbl self)) (\<lambda>lbl_map.
     bnd (bidict lbl_map) (\<lambda>lbl_map.
       Inr (self\<lparr>predicate_add_sym_map_lbl := lbl_map\<rparr>)))"

text \<open>\<open>get_sym_state_lbl_from_tuple\<close>\<close>

definition get_sym_state_lbl_from_tuple :: "franka_ts \<Rightarrow> int list \<Rightarrow> error + dd" where
  "get_sym_state_lbl_from_tuple self state_lbl_tuple =
     bnd (get_state_from_tuple (pred_int_map self) state_lbl_tuple) (\<lambda>exp_lbls.
     bnd (lookup_all (map_of (predicate_add_sym_map_lbl self)) exp_lbls) (\<lambda>sym_lbls_list.
     bnd (if ''(gripper free)'' \<notin> set exp_lbls
          then (case map_of (predicate_add_sym_map_lbl self) ''(gripper free)'' of
                  None \<Rightarrow> Inl KeyError
                | Some g \<Rightarrow> Inr (sym_lbls_list @ [dd_not g]))
          else Inr sym_lbls_list) (\<lambda>sym_lbls_list.
     bnd (reduce dd_and sym_lbls_list) (\<lambda>sym_lbl.
       if isZero sym_lbl then Inl AssertionError else Inr sym_lbl))))"

text \<open>
  \<open>get_states_from_dd\<close>. The cubes of the diagram are produced by the diagram package
  and completed by \<open>_convert_state_lbl_cube_to_func\<close> to full assignments of the current
  variables. For a diagram over the current variables, which is what the construction
  passes, these are the cubes of the patterns that meet the diagram; they are listed
  here in the order of the patterns. A non-zero diagram with no current variable leaves
  an empty list of literals to \<^verbatim>\<open>reduce\<close>.
\<close>

definition cube :: "nat \<Rightarrow> nat list \<Rightarrow> bool list \<Rightarrow> dd" where
  "cube N vars bits = (case literals N vars bits of [] \<Rightarrow> addOne N | l # ls \<Rightarrow> foldl dd_and l ls)"

definition get_states_from_dd :: "nat \<Rightarrow> nat list \<Rightarrow> dd \<Rightarrow> error + dd list" where
  "get_states_from_dd N xs dd_func =
     (if isZero dd_func then Inr []
      else if xs = [] then Inl TypeError
      else Inr (filter (\<lambda>c. \<not> isZero (dd_and dd_func c))
                  (map (cube N xs) (product10 (length xs)))))"

text \<open>\<open>add_edge_to_action_tr\<close>\<close>

definition add_edge_to_action_tr :: "franka_ts \<Rightarrow> string \<Rightarrow> int list \<Rightarrow> int list \<Rightarrow> error + franka_ts" where
  "add_edge_to_action_tr self action_name curr_state_tuple next_state_tuple =
     (case map_of (predicate_add_sym_map_curr self) curr_state_tuple of
        None \<Rightarrow> Inl KeyError
      | Some curr_state_sym \<Rightarrow>
          (case map_of (predicate_add_sym_map_nxt self) next_state_tuple of
             None \<Rightarrow> Inl KeyError
           | Some nxt_state_sym \<Rightarrow>
               (case map_of (tr_action_idx_map self) action_name of
                  None \<Rightarrow> Inl TypeError
                | Some idx \<Rightarrow>
                    if \<not> idx < length (sym_tr_actions self) then Inl IndexError
                    else
                      case map_of (weight_dict self) action_name of
                        None \<Rightarrow> Inl KeyError
                      | Some w \<Rightarrow>
                          Inr (self\<lparr>sym_tr_actions :=
                                 (sym_tr_actions self)
                                   [idx := dd_or (sym_tr_actions self ! idx)
                                      (dd_and (dd_and curr_state_sym nxt_state_sym) w)]\<rparr>))))"

text \<open>
  \<^verbatim>\<open>swapVariables\<close>: the value of the swapped diagram at an assignment is the value of
  the diagram at the assignment with the paired variables exchanged.
\<close>

definition assignment_index :: "bool list \<Rightarrow> nat" where
  "assignment_index \<rho> = foldl (\<lambda>a b. 2 * a + (if b then 0 else 1)) 0 \<rho>"

definition swap_assignment :: "nat list \<Rightarrow> nat list \<Rightarrow> bool list \<Rightarrow> bool list" where
  "swap_assignment xs ys \<rho> = foldl (\<lambda>\<sigma> (x, y). \<sigma>[x := \<rho> ! y, y := \<rho> ! x]) \<rho> (zip xs ys)"

definition swapVariables :: "nat \<Rightarrow> nat list \<Rightarrow> nat list \<Rightarrow> dd \<Rightarrow> dd" where
  "swapVariables N xs ys f =
     map (\<lambda>\<rho>. f ! assignment_index (swap_assignment xs ys \<rho>)) (product10 N)"

section \<open>Incremental construction: the layered loop\<close>

text \<open>
  The local state of \<open>create_weighted_transition_system_franka\<close>: the object itself,
  the layer-indexed open sets (a \<^verbatim>\<open>defaultdict\<close> whose default is the zero diagram),
  the closed set and the layer counter.
\<close>

record loop_state =
  lts :: franka_ts
  open_list :: "nat \<Rightarrow> dd"
  closed_dd :: dd
  layer :: nat

text \<open>
  The body of \<^verbatim>\<open>for action in self.task.operators\<close> for one action at the state
  \<open>curr_state_tuple\<close>, in two parts. The first part runs up to the feasibility check: it
  returns the list \<open>_valid_pre_list\<close> and, unless the action is skipped (its precondition
  is not part of the state, or a \<^verbatim>\<open>continue\<close> is taken), the source tuple \<open>_valid_pre\<close> of
  the edge.
\<close>

definition action_valid_pre ::
  "string list \<Rightarrow> bool \<Rightarrow> int list \<Rightarrow> operator \<Rightarrow> dd list \<Rightarrow> loop_state
    \<Rightarrow> error + (dd list \<times> int list option)" where
  "action_valid_pre boxes add_exist_constr curr_state_tuple action valid_pre_list st =
     (let self = lts st; pim = pred_int_map self in
      bnd (get_tuple_from_state pim (preconditions action)) (\<lambda>pre_tuple.
      bnd (get_conds_from_state pim pre_tuple False True) (\<lambda>necc_robot_conf.
        if \<not> set pre_tuple \<subseteq> set curr_state_tuple then Inr (valid_pre_list, None)
        else
          bnd (get_conds_from_state pim curr_state_tuple False True) (\<lambda>pre_robot_conf.
          let pre_robot_conf = filter (\<lambda>i. i \<in> set necc_robot_conf) (remdups pre_robot_conf) in
          bnd (get_conds_from_state pim curr_state_tuple True False) (\<lambda>pre_world_conf.
          let valid_pre = sort (pre_robot_conf @ pre_world_conf) in
          bnd (if valid_pre \<noteq> curr_state_tuple
               then (case map_of (predicate_add_sym_map_curr self) valid_pre of
                       None \<Rightarrow> Inl KeyError
                     | Some valid_pre_sym \<Rightarrow>
                         if \<not> isZero (dd_and valid_pre_sym (closed_dd st)) then Inr None
                         else Inr (Some (valid_pre_list @ [valid_pre_sym])))
               else Inr (Some valid_pre_list)) (\<lambda>r.
          case r of
            None \<Rightarrow> Inr (valid_pre_list, None)
          | Some valid_pre_list \<Rightarrow>
              bnd (if add_exist_constr
                      \<and> (in_str ''transfer'' (name action) \<or> in_str ''release'' (name action))
                   then check_exist_constraint pim boxes valid_pre (name action)
                   else Inr True) (\<lambda>action_feas.
                if \<not> action_feas then Inr (valid_pre_list, None)
                else Inr (valid_pre_list, Some valid_pre))))))))"

text \<open>
  The second part: the successor tuple, the edge in the action's relation, the label of
  the successor and the successor in the open set of the next layer.
\<close>

definition next_tuple_of :: "int list \<Rightarrow> int list \<Rightarrow> int list \<Rightarrow> int list" where
  "next_tuple_of valid_pre del_tuple add_tuple =
     (let next_tuple = filter (\<lambda>i. i \<notin> set del_tuple) (remdups valid_pre)
      in sort (remdups (next_tuple @ add_tuple)))"

definition action_successor :: "operator \<Rightarrow> int list \<Rightarrow> loop_state \<Rightarrow> error + loop_state" where
  "action_successor action valid_pre st =
     (let self = lts st; pim = pred_int_map self; N = length (manager self) in
      bnd (get_tuple_from_state pim (add_effects action)) (\<lambda>add_tuple.
      bnd (get_tuple_from_state pim (del_effects action)) (\<lambda>del_tuple.
      let next_tuple = next_tuple_of valid_pre del_tuple add_tuple in
      case map_of (predicate_add_sym_map_nxt self) next_tuple of
        None \<Rightarrow> Inl KeyError
      | Some next_sym_state \<Rightarrow>
          bnd (add_edge_to_action_tr self (name action) valid_pre next_tuple) (\<lambda>self.
          let next_sym_state =
                swapVariables N (sym_add_vars_curr self) (sym_add_vars_next self) next_sym_state in
          bnd (get_conds_from_state pim next_tuple True False) (\<lambda>next_tuple_lbl.
          bnd (get_sym_state_lbl_from_tuple self next_tuple_lbl) (\<lambda>next_lbl_sym.
            Inr (st\<lparr>lts := self\<lparr>sym_add_state_labels :=
                               dd_or (sym_add_state_labels self)
                                 (dd_and next_sym_state next_lbl_sym)\<rparr>,
                    open_list := (open_list st)
                      (layer st + 1 := dd_or (open_list st (layer st + 1)) next_sym_state)\<rparr>)))))))"

definition process_action ::
  "string list \<Rightarrow> bool \<Rightarrow> int list \<Rightarrow> operator \<Rightarrow> dd list \<times> loop_state
    \<Rightarrow> error + (dd list \<times> loop_state)" where
  "process_action boxes add_exist_constr curr_state_tuple action vs =
     (case vs of (valid_pre_list, st) \<Rightarrow>
      bnd (action_valid_pre boxes add_exist_constr curr_state_tuple action valid_pre_list st)
        (\<lambda>(valid_pre_list, r).
           case r of
             None \<Rightarrow> Inr (valid_pre_list, st)
           | Some valid_pre \<Rightarrow>
               bnd (action_successor action valid_pre st) (\<lambda>st. Inr (valid_pre_list, st))))"

text \<open>The body of \<^verbatim>\<open>for _val_pre_sym in _valid_pre_list\<close>.\<close>

definition close_valid_pre :: "dd \<Rightarrow> loop_state \<Rightarrow> error + loop_state" where
  "close_valid_pre val_pre_sym st =
     (let self = lts st in
      case inv_of (predicate_add_sym_map_curr self) val_pre_sym of
        None \<Rightarrow> Inl KeyError
      | Some t \<Rightarrow>
          bnd (get_conds_from_state (pred_int_map self) t True False) (\<lambda>valid_pre_lbl.
          bnd (get_sym_state_lbl_from_tuple self valid_pre_lbl) (\<lambda>valid_pre_lbl_sym.
            Inr (st\<lparr>lts := self\<lparr>sym_add_state_labels :=
                               dd_or (sym_add_state_labels self)
                                 (dd_and val_pre_sym valid_pre_lbl_sym)\<rparr>,
                    closed_dd := dd_or (closed_dd st) val_pre_sym\<rparr>))))"

text \<open>The body of \<^verbatim>\<open>for state in sym_state\<close>: the expansion of one state.\<close>

definition process_state :: "string list \<Rightarrow> bool \<Rightarrow> dd \<Rightarrow> loop_state \<Rightarrow> error + loop_state" where
  "process_state boxes add_exist_constr state st =
     (case inv_of (predicate_add_sym_map_curr (lts st)) state of
        None \<Rightarrow> Inl KeyError
      | Some curr_state_tuple \<Rightarrow>
          bnd (foldM (process_action boxes add_exist_constr curr_state_tuple)
                 (operators (lts st)) ([], st)) (\<lambda>(valid_pre_list, st).
            foldM close_valid_pre valid_pre_list st))"

text \<open>
  One pass through the body of the \<^verbatim>\<open>while\<close> loop, in two parts. \<open>layer_states\<close> is the
  part before the \<^verbatim>\<open>for\<close> loop: the explored states are removed from the open set of the
  layer; if unexpanded states remain, they are added to the closed set and listed. The
  result is the loop state and, when the layer is expanded, the list \<^verbatim>\<open>sym_state\<close> that
  the \<^verbatim>\<open>for\<close> loop runs over. \<open>franka_layer\<close> is the whole pass: the \<^verbatim>\<open>for\<close> loop expands
  every state of that list, and the layer counter moves on.
\<close>

definition layer_states :: "loop_state \<Rightarrow> error + (loop_state \<times> dd list option)" where
  "layer_states st =
     (let open_layer = dd_and (open_list st (layer st)) (dd_not (closed_dd st));
          st = st\<lparr>open_list := (open_list st)(layer st := open_layer)\<rparr>
      in if \<not> isZero open_layer then
           let st = st\<lparr>closed_dd := dd_or (closed_dd st) open_layer\<rparr> in
           bnd (get_states_from_dd (length (manager (lts st))) (sym_add_vars_curr (lts st)) open_layer)
             (\<lambda>sym_state. Inr (st, Some sym_state))
         else Inr (st, None))"

definition franka_layer :: "string list \<Rightarrow> bool \<Rightarrow> loop_state \<Rightarrow> error + loop_state" where
  "franka_layer boxes add_exist_constr st =
     bnd (layer_states st) (\<lambda>(st, r).
       case r of
         None \<Rightarrow> Inr st
       | Some sym_state \<Rightarrow>
           bnd (foldM (process_state boxes add_exist_constr) sym_state st) (\<lambda>st.
             Inr (st\<lparr>layer := layer st + 1\<rparr>)))"

lemma franka_layer_unfold:
  "franka_layer boxes add_exist_constr st =
     (let open_layer = dd_and (open_list st (layer st)) (dd_not (closed_dd st));
          st = st\<lparr>open_list := (open_list st)(layer st := open_layer)\<rparr>
      in if \<not> isZero open_layer then
           let st = st\<lparr>closed_dd := dd_or (closed_dd st) open_layer\<rparr> in
           bnd (get_states_from_dd (length (manager (lts st))) (sym_add_vars_curr (lts st)) open_layer)
             (\<lambda>sym_state.
           bnd (foldM (process_state boxes add_exist_constr) sym_state st) (\<lambda>st.
             Inr (st\<lparr>layer := layer st + 1\<rparr>)))
         else Inr st)"
proof (cases "isZero (dd_and (open_list st (layer st)) (dd_not (closed_dd st)))")
  case True
  then show ?thesis by (simp add: franka_layer_def layer_states_def Let_def bnd_def)
next
  case False
  then show ?thesis
    by (cases "get_states_from_dd (length (manager (lts st))) (sym_add_vars_curr (lts st))
                 (dd_and (open_list st (layer st)) (dd_not (closed_dd st)))")
       (simp_all add: franka_layer_def layer_states_def Let_def bnd_def)
qed

text \<open>
  The \<^verbatim>\<open>while\<close> loop. It ends because every pass that expands a layer makes the closed
  set strictly larger: the number of assignments outside the closed set is the measure.
\<close>

definition count0 :: "dd \<Rightarrow> nat" where
  "count0 f = length (filter (\<lambda>a. a = 0) f)"

lemma count0_dd_or: "count0 (dd_or f g) \<le> count0 f"
proof (induction f arbitrary: g)
  case Nil
  then show ?case by (simp add: count0_def dd_or_def)
next
  case (Cons a f)
  show ?case
  proof (cases g)
    case Nil
    then show ?thesis by (simp add: count0_def dd_or_def)
  next
    case (Cons b g')
    have "count0 (dd_or f g') \<le> count0 f" by (rule Cons.IH)
    then show ?thesis using Cons by (auto simp: count0_def dd_or_def max_def)
  qed
qed

lemma count0_dd_or_less:
  "\<not> isZero (dd_and g (dd_not f)) \<Longrightarrow> count0 (dd_or f (dd_and g (dd_not f))) < count0 f"
proof (induction f arbitrary: g)
  case Nil
  then show ?case by (simp add: isZero_def dd_and_def dd_not_def)
next
  case (Cons a f)
  show ?case
  proof (cases g)
    case Nil
    then show ?thesis using Cons.prems by (simp add: isZero_def dd_and_def dd_not_def)
  next
    case g: (Cons b g')
    have le: "count0 (dd_or f (dd_and g' (dd_not f))) \<le> count0 f" by (rule count0_dd_or)
    show ?thesis
    proof (cases "isZero (dd_and g' (dd_not f))")
      case True
      then have "b * (if a = 0 then 1 else 0) \<noteq> 0"
        using Cons.prems g by (simp add: isZero_def dd_and_def dd_not_def)
      then have "a = 0" "b \<noteq> 0" by (auto split: if_splits)
      then show ?thesis using le g
        by (simp add: count0_def dd_or_def dd_and_def dd_not_def)
    next
      case False
      then have "count0 (dd_or f (dd_and g' (dd_not f))) < count0 f" by (rule Cons.IH)
      then show ?thesis using g
        by (auto simp: count0_def dd_or_def dd_and_def dd_not_def max_def)
    qed
  qed
qed

lemma bnd_Inr: "bnd m f = Inr y \<longleftrightarrow> (\<exists>x. m = Inr x \<and> f x = Inr y)"
  by (cases m) (simp_all add: bnd_def)

lemma action_successor_closed:
  "action_successor action valid_pre st = Inr st' \<Longrightarrow> closed_dd st' = closed_dd st"
  by (auto simp: action_successor_def Let_def bnd_Inr split: option.splits)

lemma process_action_closed:
  "process_action b a t action vs = Inr vs' \<Longrightarrow> closed_dd (snd vs') = closed_dd (snd vs)"
  by (auto simp: process_action_def bnd_Inr action_successor_closed
        split: prod.splits option.splits)

lemma close_valid_pre_count0:
  "close_valid_pre c st = Inr st' \<Longrightarrow> count0 (closed_dd st') \<le> count0 (closed_dd st)"
  by (auto simp: close_valid_pre_def Let_def bnd_Inr count0_dd_or split: option.splits)

lemma foldM_process_action_closed:
  "foldM (process_action b a t) ops vs = Inr vs' \<Longrightarrow> closed_dd (snd vs') = closed_dd (snd vs)"
proof (induction ops arbitrary: vs)
  case Nil
  then show ?case by simp
next
  case (Cons x ops)
  then obtain v1 where v1: "process_action b a t x vs = Inr v1" and rest: "foldM (process_action b a t) ops v1 = Inr vs'"
    by (auto split: sum.splits)
  show ?case using Cons.IH [OF rest] process_action_closed [OF v1] by simp
qed

lemma foldM_close_valid_pre_count0:
  "foldM close_valid_pre cs st = Inr st' \<Longrightarrow> count0 (closed_dd st') \<le> count0 (closed_dd st)"
proof (induction cs arbitrary: st)
  case Nil
  then show ?case by simp
next
  case (Cons c cs)
  then obtain s1 where s1: "close_valid_pre c st = Inr s1" and rest: "foldM close_valid_pre cs s1 = Inr st'"
    by (auto split: sum.splits)
  show ?case using Cons.IH [OF rest] close_valid_pre_count0 [OF s1] by simp
qed

lemma process_state_count0:
  assumes "process_state b a c st = Inr st'"
  shows "count0 (closed_dd st') \<le> count0 (closed_dd st)"
proof -
  from assms obtain t vpl st1 where
    f1: "foldM (process_action b a t) (operators (lts st)) ([], st) = Inr (vpl, st1)"
    and f2: "foldM close_valid_pre vpl st1 = Inr st'"
    by (auto simp: process_state_def bnd_Inr split: option.splits)
  show ?thesis
    using foldM_process_action_closed [OF f1] foldM_close_valid_pre_count0 [OF f2] by simp
qed

lemma foldM_process_state_count0:
  "foldM (process_state b a) cs st = Inr st' \<Longrightarrow> count0 (closed_dd st') \<le> count0 (closed_dd st)"
proof (induction cs arbitrary: st)
  case Nil
  then show ?case by simp
next
  case (Cons c cs)
  then obtain s1 where s1: "process_state b a c st = Inr s1" and rest: "foldM (process_state b a) cs s1 = Inr st'"
    by (auto split: sum.splits)
  show ?case using Cons.IH [OF rest] process_state_count0 [OF s1] by simp
qed

lemma franka_layer_measure:
  assumes "franka_layer b a st = Inr st'"
  shows "count0 (closed_dd st') < count0 (closed_dd st)
       \<or> (count0 (closed_dd st') = count0 (closed_dd st) \<and> isZero (open_list st' (layer st')))"
proof (cases "isZero (dd_and (open_list st (layer st)) (dd_not (closed_dd st)))")
  case True
  then show ?thesis using assms by (auto simp: franka_layer_unfold Let_def)
next
  case False
  let ?o = "dd_and (open_list st (layer st)) (dd_not (closed_dd st))"
  let ?st1 = "st\<lparr>open_list := (open_list st)(layer st := ?o), closed_dd := dd_or (closed_dd st) ?o\<rparr>"
  from assms False obtain cs st2 where
    f: "foldM (process_state b a) cs ?st1 = Inr st2" and st': "st' = st2\<lparr>layer := layer st2 + 1\<rparr>"
    by (auto simp: franka_layer_unfold Let_def bnd_Inr)
  have "count0 (closed_dd st2) \<le> count0 (closed_dd ?st1)"
    by (rule foldM_process_state_count0 [OF f])
  moreover have "count0 (closed_dd ?st1) < count0 (closed_dd st)"
    using count0_dd_or_less [OF False] by simp
  ultimately show ?thesis using st' by simp
qed

function franka_loop :: "string list \<Rightarrow> bool \<Rightarrow> loop_state \<Rightarrow> error + loop_state" where
  "franka_loop boxes add_exist_constr st =
     (if isZero (open_list st (layer st)) then Inr st
      else case franka_layer boxes add_exist_constr st of
             Inl e \<Rightarrow> Inl e
           | Inr st' \<Rightarrow> franka_loop boxes add_exist_constr st')"
  by pat_completeness auto
termination
proof (relation "measures [\<lambda>(b, a, st). count0 (closed_dd st),
                           \<lambda>(b, a, st). if isZero (open_list st (layer st)) then 0 else 1]")
  show "wf (measures [\<lambda>(b, a, st). count0 (closed_dd st),
                      \<lambda>(b, a, st). if isZero (open_list st (layer st)) then 0 else 1])"
    by simp
next
  fix boxes :: "string list" and add_exist_constr :: bool and st st' :: loop_state
  assume "\<not> isZero (open_list st (layer st))" "franka_layer boxes add_exist_constr st = Inr st'"
  then show "((boxes, add_exist_constr, st'), (boxes, add_exist_constr, st))
      \<in> measures [\<lambda>(b, a, st). count0 (closed_dd st),
                   \<lambda>(b, a, st). if isZero (open_list st (layer st)) then 0 else 1]"
    using franka_layer_measure [of boxes add_exist_constr st st'] by auto
qed

declare franka_loop.simps [simp del]

text \<open>
  \<open>create_weighted_transition_system_franka\<close>: the statements before the loop build the
  first loop state, then the loop runs. The result is the last loop state, whose \<open>lts\<close>
  is the object as the method leaves it.
\<close>

definition franka_start ::
  "franka_ts \<Rightarrow> (string \<times> string list) list \<Rightarrow> error + loop_state" where
  "franka_start self state_lbls =
     bnd (create_sym_state_label_map self state_lbls) (\<lambda>self.
       let N = length (manager self) in
       case sym_add_init_states self of
         None \<Rightarrow> Inl KeyError
       | Some init_state_sym \<Rightarrow>
           (case inv_of (predicate_add_sym_map_curr self) init_state_sym of
              None \<Rightarrow> Inl KeyError
            | Some init_tuple \<Rightarrow>
                bnd (get_conds_from_state (pred_int_map self) init_tuple True False) (\<lambda>state_lbl.
                bnd (get_sym_state_lbl_from_tuple self state_lbl) (\<lambda>init_lbl_sym.
                  Inr \<lparr>lts = self\<lparr>sym_add_state_labels :=
                                    dd_or (sym_add_state_labels self)
                                      (dd_and init_state_sym init_lbl_sym)\<rparr>,
                       open_list = (\<lambda>l. addZero N)(0 := dd_or (addZero N) init_state_sym),
                       closed_dd = addZero N,
                       layer = 0\<rparr>))))"

definition create_weighted_transition_system_franka ::
  "franka_ts \<Rightarrow> string list \<Rightarrow> (string \<times> string list) list \<Rightarrow> bool \<Rightarrow> error + loop_state" where
  "create_weighted_transition_system_franka self boxes state_lbls add_exist_constr =
     bnd (franka_start self state_lbls) (\<lambda>st.
       let add_exist_constr = (if length boxes = 1 then False else add_exist_constr)
       in franka_loop boxes add_exist_constr st)"

text \<open>
  \<^verbatim>\<open>FrankaWorld.build_weighted_add_abstraction\<close>. What \<open>create_symbolic_causal_graph\<close>
  returns (the task, the variables, the candidate states, the boxes and their labels) and
  the predicate map come from the grounding of the planning problem and are parameters.
  The weights are sorted in descending order (a stable sort) and turned into constants.
\<close>

definition build_weighted_add_abstraction ::
  "(string \<times> nat) list \<Rightarrow> string list \<Rightarrow> string list \<Rightarrow> string list \<Rightarrow> operator list
    \<Rightarrow> nat list \<Rightarrow> nat list \<Rightarrow> int list list \<Rightarrow> nat list \<Rightarrow> string list
    \<Rightarrow> (string \<times> string list) list \<Rightarrow> (string \<times> int) list \<Rightarrow> string list \<Rightarrow> error + loop_state" where
  "build_weighted_add_abstraction self_weight_dict task_init task_goals task_facts task_operators
      add_ts_curr_vars add_ts_next_vars ts_state_tuples add_ts_lbl_vars boxes possible_lbls
      self_pred_int_map mgr =
     bnd (create_weight_dict self_weight_dict task_operators []) (\<lambda>new_weight_dict.
       let weight_dict = map (\<lambda>(action, w). (action, addConst (length mgr) w))
                           (sort_key (\<lambda>item. - int (snd item)) new_weight_dict) in
       bnd (SymbolicWeightedFrankaTransitionSystem add_ts_curr_vars add_ts_next_vars
              add_ts_lbl_vars task_init task_goals task_facts task_operators weight_dict
              self_pred_int_map ts_state_tuples mgr) (\<lambda>sym_tr.
         create_weighted_transition_system_franka sym_tr boxes possible_lbls True))"

section \<open>Diagrams as tables: the facts used below\<close>

lemma length_product10: "length (product10 n) = 2 ^ n"
  by (induction n) simp_all

lemma set_product10: "set (product10 n) = {bs. length bs = n}"
proof (induction n)
  case 0
  then show ?case by auto
next
  case (Suc n)
  show ?case
  proof (rule set_eqI)
    fix bs :: "bool list"
    show "bs \<in> set (product10 (Suc n)) \<longleftrightarrow> bs \<in> {bs. length bs = Suc n}"
    proof (cases bs)
      case Nil
      then show ?thesis using Suc by auto
    next
      case (Cons b r)
      then show ?thesis using Suc by (cases b) auto
    qed
  qed
qed

lemma distinct_product10: "distinct (product10 n)"
  by (induction n) (auto simp: distinct_map inj_on_def)

text \<open>\<open>tab N f\<close> is the diagram over \<open>N\<close> variables that denotes the function \<open>f\<close>.\<close>

definition tab :: "nat \<Rightarrow> (bool list \<Rightarrow> nat) \<Rightarrow> dd" where
  "tab N f = map f (product10 N)"

lemma length_tab: "length (tab N f) = 2 ^ N"
  by (simp add: tab_def length_product10)

lemma tab_eq_iff: "tab N f = tab N g \<longleftrightarrow> (\<forall>\<rho>. length \<rho> = N \<longrightarrow> f \<rho> = g \<rho>)"
  by (auto simp: tab_def set_product10)

lemma tab_cong: "(\<And>\<rho>. length \<rho> = N \<Longrightarrow> f \<rho> = g \<rho>) \<Longrightarrow> tab N f = tab N g"
  by (simp add: tab_eq_iff)

lemma addConst_tab: "addConst N c = tab N (\<lambda>\<rho>. c)"
  by (simp add: addConst_def tab_def)

lemma addZero_tab: "addZero N = tab N (\<lambda>\<rho>. 0)"
  by (simp add: addZero_def addConst_tab)

lemma addOne_tab: "addOne N = tab N (\<lambda>\<rho>. 1)"
  by (simp add: addOne_def addConst_tab)

lemma addVar_tab: "addVar N i = tab N (\<lambda>\<rho>. of_bool (\<rho> ! i))"
  by (simp add: addVar_def tab_def)

lemma zip_map_same: "zip (map f xs) (map g xs) = map (\<lambda>x. (f x, g x)) xs"
  by (induction xs) simp_all

lemma dd_and_tab: "dd_and (tab N f) (tab N g) = tab N (\<lambda>\<rho>. f \<rho> * g \<rho>)"
  by (simp add: dd_and_def tab_def zip_map_same)

lemma dd_or_tab: "dd_or (tab N f) (tab N g) = tab N (\<lambda>\<rho>. max (f \<rho>) (g \<rho>))"
  by (simp add: dd_or_def tab_def zip_map_same)

lemma dd_not_tab: "dd_not (tab N f) = tab N (\<lambda>\<rho>. of_bool (f \<rho> = 0))"
  by (simp add: dd_not_def tab_def)

lemma isZero_tab: "isZero (tab N f) \<longleftrightarrow> (\<forall>\<rho>. length \<rho> = N \<longrightarrow> f \<rho> = 0)"
  by (auto simp: isZero_def tab_def list_all_iff set_product10)

lemma literal_tab: "literal N v b = tab N (\<lambda>\<rho>. of_bool (\<rho> ! v = b))"
  by (cases b) (auto simp: literal_def addVar_tab dd_not_tab intro!: tab_cong)

text \<open>The cube of a pattern denotes the assignments that agree with the pattern.\<close>

definition agrees :: "nat list \<Rightarrow> bool list \<Rightarrow> bool list \<Rightarrow> bool" where
  "agrees vars bits \<rho> = (\<forall>(v, b) \<in> set (zip vars bits). \<rho> ! v = b)"

lemma foldl_dd_and_tab:
  "foldl dd_and (tab N f) (literals N vars bits)
     = tab N (\<lambda>\<rho>. f \<rho> * of_bool (agrees vars bits \<rho>))"
proof (induction vars arbitrary: bits f)
  case Nil
  then show ?case by (simp add: literals_def agrees_def)
next
  case (Cons v vars)
  show ?case
  proof (cases bits)
    case Nil
    then show ?thesis by (simp add: literals_def agrees_def)
  next
    case (Cons b bs)
    have "foldl dd_and (tab N f) (literals N (v # vars) bits)
        = foldl dd_and (tab N (\<lambda>\<rho>. f \<rho> * of_bool (\<rho> ! v = b))) (literals N vars bs)"
      using Cons by (simp add: literals_def literal_tab dd_and_tab)
    also have "\<dots> = tab N (\<lambda>\<rho>. f \<rho> * of_bool (\<rho> ! v = b) * of_bool (agrees vars bs \<rho>))"
      using Cons.IH [of "\<lambda>\<rho>. f \<rho> * of_bool (\<rho> ! v = b)" bs] literals_def by simp
    also have "\<dots> = tab N (\<lambda>\<rho>. f \<rho> * of_bool (agrees (v # vars) bits \<rho>))"
      using Cons by (auto simp: agrees_def intro!: tab_cong)
    finally show ?thesis .
  qed
qed

lemma cube_tab: "cube N vars bits = tab N (\<lambda>\<rho>. of_bool (agrees vars bits \<rho>))"
proof (cases "literals N vars bits")
  case Nil
  then have z: "zip vars bits = []" by (simp add: literals_def)
  have "agrees vars bits = (\<lambda>\<rho>. True)" unfolding agrees_def z by simp
  then show ?thesis using Nil by (simp add: cube_def addOne_tab)
next
  case (Cons l ls)
  then obtain v vs b bs where vb: "vars = v # vs" "bits = b # bs"
    by (cases vars; cases bits) (auto simp: literals_def)
  then have l: "l = literal N v b" "ls = literals N vs bs"
    using Cons by (auto simp: literals_def)
  have "cube N vars bits = foldl dd_and (tab N (\<lambda>\<rho>. of_bool (\<rho> ! v = b))) (literals N vs bs)"
    using Cons l by (simp add: cube_def literal_tab)
  also have "\<dots> = tab N (\<lambda>\<rho>. of_bool (\<rho> ! v = b) * of_bool (agrees vs bs \<rho>))"
    by (rule foldl_dd_and_tab)
  also have "\<dots> = tab N (\<lambda>\<rho>. of_bool (agrees vars bits \<rho>))"
    using vb by (auto simp: agrees_def intro!: tab_cong)
  finally show ?thesis .
qed

lemma reduce_literals_cube:
  "vars \<noteq> [] \<Longrightarrow> bits \<noteq> [] \<Longrightarrow> reduce dd_and (literals N vars bits) = Inr (cube N vars bits)"
  by (cases vars; cases bits) (simp_all add: reduce_def cube_def literals_def)

text \<open>An assignment that agrees with a pattern, and the injectivity of cubes.\<close>

lemma agrees_witness:
  assumes "distinct vars" "set vars \<subseteq> {..<N}" "length bits = length vars"
  shows "\<exists>\<rho>. length \<rho> = N \<and> agrees vars bits \<rho>"
  using assms
proof (induction vars arbitrary: bits)
  case Nil
  then show ?case by (auto simp: agrees_def intro: exI [of _ "replicate N False"])
next
  case (Cons v vars)
  then obtain b bs where bits: "bits = b # bs" by (cases bits) auto
  with Cons obtain \<rho> where \<rho>: "length \<rho> = N" "agrees vars bs \<rho>" by fastforce
  have "agrees (v # vars) bits (\<rho>[v := b])"
    unfolding agrees_def bits
  proof (clarsimp, intro conjI ballI)
    show "\<rho>[v := b] ! v = b" using Cons.prems \<rho> by simp
  next
    fix x assume x: "x \<in> set (zip vars bs)"
    then have "fst x \<in> set vars" by (metis prod.collapse set_zip_leftD)
    then have "fst x \<noteq> v" using Cons.prems by auto
    then show "case x of (v', b') \<Rightarrow> \<rho>[v := b] ! v' = b'"
      using \<rho>(2) x by (auto simp: agrees_def)
  qed
  then show ?case using \<rho> by (intro exI [of _ "\<rho>[v := b]"]) simp
qed

lemma agrees_unique:
  assumes "agrees vars bits \<rho>" "agrees vars bits' \<rho>" "length bits = length vars" "length bits' = length vars"
  shows "bits = bits'"
proof (rule nth_equalityI)
  show "length bits = length bits'" using assms by simp
next
  fix i assume i: "i < length bits"
  then have "(vars ! i, bits ! i) \<in> set (zip vars bits)" "(vars ! i, bits' ! i) \<in> set (zip vars bits')"
    using assms by (auto simp: set_zip)
  then show "bits ! i = bits' ! i" using assms by (auto simp: agrees_def)
qed

lemma cube_inj:
  assumes "distinct vars" "set vars \<subseteq> {..<N}" "length bits = length vars" "length bits' = length vars"
    and eq: "cube N vars bits = cube N vars bits'"
  shows "bits = bits'"
proof -
  obtain \<rho> where \<rho>: "length \<rho> = N" "agrees vars bits \<rho>"
    using agrees_witness [OF assms(1-3)] by blast
  from eq have "of_bool (agrees vars bits \<rho>) = (of_bool (agrees vars bits' \<rho>) :: nat)"
    using \<rho>(1) by (simp add: cube_tab tab_eq_iff)
  then have "agrees vars bits' \<rho>" using \<rho>(2) by (cases "agrees vars bits' \<rho>") simp_all
  then show ?thesis using \<rho>(2) assms agrees_unique by blast
qed

lemma cube_not_zero:
  assumes "distinct vars" "set vars \<subseteq> {..<N}" "length bits = length vars"
  shows "\<not> isZero (cube N vars bits)"
  using agrees_witness [OF assms] by (auto simp: cube_tab isZero_tab)

lemma cube_disjoint:
  assumes "length bits = length vars" "length bits' = length vars" "bits \<noteq> bits'"
  shows "isZero (dd_and (cube N vars bits) (cube N vars bits'))"
  using assms agrees_unique by (auto simp: cube_tab dd_and_tab isZero_tab)

section \<open>Label variables: the number allocated\<close>

lemma nat_ceiling_log2: "0 < n \<Longrightarrow> nat \<lceil>log 2 (real n)\<rceil> = ceillog2 n"
  by (simp add: ceillog2_def)

text \<open>
  C8. For a non-empty candidate list of size \<open>n \<le> 2 ^ 49\<close> (the sizes at which the
  double-precision logarithm of the code is the exact one), \<open>_create_symbolic_lbl_vars\<close>
  returns exactly \<open>max 1 \<lceil>log\<^sub>2 n\<rceil>\<close> variables: one variable when \<open>n = 1\<close>, and otherwise
  the least width whose \<open>2 ^ width\<close> patterns address all \<open>n\<close> candidates. The variables are
  the next free indices of the manager.
\<close>

theorem create_symbolic_lbl_vars_count:
  assumes "state_lbls \<noteq> []" and "length state_lbls \<le> 2 ^ 49"
  shows "\<exists>vs mgr'.
           create_symbolic_lbl_vars mgr state_lbls state_var_name add_flag = Inr (vs, mgr')
         \<and> length vs = max 1 (nat \<lceil>log 2 (real (length state_lbls))\<rceil>)
         \<and> (length state_lbls = 1 \<longrightarrow> length vs = 1)
         \<and> length state_lbls \<le> 2 ^ length vs
         \<and> (1 < length vs \<longrightarrow> 2 ^ (length vs - 1) < length state_lbls)
         \<and> vs = [length mgr ..< length mgr + length vs]
         \<and> length mgr' = length mgr + length vs"
proof -
  let ?n = "length state_lbls"
  let ?k = "ceillog2 ?n"
  let ?num = "if ?k = 0 then ?k + 1 else ?k"
  have n: "0 < ?n" using assms(1) by simp
  have k: "nat \<lceil>log 2 (real ?n)\<rceil> = ?k" using n by (rule nat_ceiling_log2)
  have run: "create_symbolic_lbl_vars mgr state_lbls state_var_name add_flag
      = Inr (map (\<lambda>i. i + length mgr) [0..<?num],
             mgr @ map (\<lambda>i. state_var_name @ show_nat i) [0..<?num])"
    using n by (simp add: create_symbolic_lbl_vars_def Let_def k)
  have num: "?num = max 1 ?k" by simp
  have le: "?n \<le> 2 ^ ?num"
    using le_two_power_ceillog2 [of ?n] by (cases "?k = 0") auto
  have low: "1 < ?num \<longrightarrow> 2 ^ (?num - 1) < ?n"
  proof
    assume "1 < ?num"
    then have k1: "1 < ?k" by (simp split: if_splits)
    then have "?k - 1 < ?k" by simp
    then have "\<not> ?k \<le> ?k - 1" by simp
    then have "\<not> ?n \<le> 2 ^ (?k - 1)" using ceillog2_le_iff [OF n, of "?k - 1"] by simp
    then show "2 ^ (?num - 1) < ?n" using k1 by simp
  qed
  have one: "?n = 1 \<longrightarrow> ?num = 1" by simp
  have idx: "map (\<lambda>i. i + length mgr) [0..<?num] = [length mgr ..< length mgr + ?num]"
    by (simp add: map_add_upt add.commute)
  show ?thesis
    unfolding run k using num le low one idx by (intro exI conjI) (auto simp del: One_nat_def)
qed

theorem create_symbolic_lbl_vars_count_witness:
  "[''(on b0 l0)'', ''(on b0 l1)'', ''(on b0 l2)''] \<noteq> []
   \<and> length [''(on b0 l0)'', ''(on b0 l1)'', ''(on b0 l2)''] \<le> 2 ^ 49
   \<and> (\<exists>vs mgr'.
        create_symbolic_lbl_vars [''x0'', ''y0''] [''(on b0 l0)'', ''(on b0 l1)'', ''(on b0 l2)''] ''b0_'' True
          = Inr (vs, mgr')
      \<and> length vs = max 1 (nat \<lceil>log 2 (real (length [''(on b0 l0)'', ''(on b0 l1)'', ''(on b0 l2)'']))\<rceil>)
      \<and> (length [''(on b0 l0)'', ''(on b0 l1)'', ''(on b0 l2)''] = 1 \<longrightarrow> length vs = 1)
      \<and> length [''(on b0 l0)'', ''(on b0 l1)'', ''(on b0 l2)''] \<le> 2 ^ length vs
      \<and> (1 < length vs \<longrightarrow> 2 ^ (length vs - 1) < length [''(on b0 l0)'', ''(on b0 l1)'', ''(on b0 l2)''])
      \<and> vs = [length [''x0'', ''y0''] ..< length [''x0'', ''y0''] + length vs]
      \<and> length mgr' = length [''x0'', ''y0''] + length vs)"
proof -
  have h1: "[''(on b0 l0)'', ''(on b0 l1)'', ''(on b0 l2)''] \<noteq> []" by simp
  have h2: "length [''(on b0 l0)'', ''(on b0 l1)'', ''(on b0 l2)''] \<le> 2 ^ 49" by simp
  show ?thesis
    by (intro conjI h1 h2
          create_symbolic_lbl_vars_count [OF h1 h2, of "[''x0'', ''y0'']" "''b0_''" True])
qed

section \<open>Configuration errors: weight table and encoding width\<close>

lemma bnd_Inl: "bnd m f = Inl e \<longleftrightarrow> (m = Inl e \<or> (\<exists>x. m = Inr x \<and> f x = Inl e))"
  by (cases m) (simp_all add: bnd_def)

lemma bnd_simps [simp]: "bnd (Inl e) f = Inl e" "bnd (Inr x) f = f x"
  by (simp_all add: bnd_def)

lemma create_weight_dict_missing:
  assumes "op \<in> set ops" "action_of_name (name op) = Inr g" "map_of wd g = None"
  shows "create_weight_dict wd ops acc = Inl KeyError \<or> create_weight_dict wd ops acc = Inl IndexError"
  using assms(1)
proof (induction ops arbitrary: acc)
  case Nil
  then show ?case by simp
next
  case (Cons x ops)
  show ?case
  proof (cases "action_of_name (name x)")
    case (Inl e)
    then have "e = IndexError" by (auto simp: action_of_name_def Let_def split: if_splits)
    then show ?thesis using Inl by simp
  next
    case (Inr g')
    show ?thesis
    proof (cases "map_of wd g'")
      case None
      then show ?thesis using Inr by simp
    next
      case (Some w)
      then have "x \<noteq> op" using Inr assms(2,3) by auto
      then have "op \<in> set ops" using Cons.prems by simp
      then show ?thesis using Cons.IH Inr Some by simp
    qed
  qed
qed

lemma foldM_error:
  assumes "x \<in> set xs" "\<And>s. \<exists>e. f x s = Inl e"
  shows "\<exists>e. foldM f xs s = Inl e"
  using assms(1)
proof (induction xs arbitrary: s)
  case Nil
  then show ?case by simp
next
  case (Cons y ys)
  show ?case
  proof (cases "f y s")
    case (Inl e)
    then show ?thesis by simp
  next
    case (Inr s')
    have "y \<noteq> x" using Inr assms(2) [of s] by auto
    then have "x \<in> set ys" using Cons.prems by simp
    then show ?thesis using Cons.IH Inr by simp
  qed
qed

lemma build_actions_unknown_action:
  assumes "action_of_name (name op) = Inr g" "g \<notin> fst ` set (weight_dict self)"
  shows "\<exists>e. build_actions_tr_func_weighted self op = Inl e"
proof -
  let ?N = "length (manager self)"
  let ?p = "sym_of_list (addOne ?N) (map (map_of (predicate_add_sym_map_curr self)) (preconditions op))"
  let ?a = "sym_of_list (addOne ?N) (map (map_of (predicate_add_sym_map_nxt self)) (add_effects op))"
  let ?d = "sym_of_list (addZero ?N) (map (map_of (predicate_add_sym_map_nxt self)) (del_effects op))"
  show ?thesis
    using assms
    by (cases ?p; cases ?a; cases ?d) (simp_all add: build_actions_tr_func_weighted_def Let_def)
qed

lemma foldM_error_inv:
  assumes "x \<in> set xs" "I s"
    and pres: "\<And>y s s'. I s \<Longrightarrow> f y s = Inr s' \<Longrightarrow> I s'"
    and fail: "\<And>s. I s \<Longrightarrow> \<exists>e. f x s = Inl e"
  shows "\<exists>e. foldM f xs s = Inl e"
  using assms(1,2)
proof (induction xs arbitrary: s)
  case Nil
  then show ?case by simp
next
  case (Cons y ys)
  show ?case
  proof (cases "f y s")
    case (Inl e)
    then show ?thesis by simp
  next
    case (Inr s')
    have "y \<noteq> x" using Inr fail [OF Cons.prems(2)] by auto
    then have "x \<in> set ys" using Cons.prems by simp
    moreover have "I s'" using pres [OF Cons.prems(2) Inr] .
    ultimately show ?thesis using Cons.IH Inr by simp
  qed
qed

text \<open>What a successful call of \<open>build_actions_tr_func_weighted\<close> has computed.\<close>

definition flip_zero :: "dd \<Rightarrow> dd" where
  "flip_zero f = (if isZero f then dd_not f else f)"

lemma build_actions_InrI:
  assumes "sym_of_list (addOne (length (manager self)))
             (map (map_of (predicate_add_sym_map_curr self)) (preconditions op)) = Inr (Some pre0)"
    and "sym_of_list (addOne (length (manager self)))
             (map (map_of (predicate_add_sym_map_nxt self)) (add_effects op)) = Inr (Some add0)"
    and "sym_of_list (addZero (length (manager self)))
             (map (map_of (predicate_add_sym_map_nxt self)) (del_effects op)) = Inr (Some del)"
    and "action_of_name (name op) = Inr action"
    and "action \<in> fst ` set (weight_dict self)"
    and "map_of (tr_action_idx_map self) action = Some idx"
    and "idx < length (sym_tr_actions self)"
    and "map_of (weight_dict self) action = Some w"
  shows "build_actions_tr_func_weighted self op =
           Inr (self\<lparr>sym_tr_actions := (sym_tr_actions self)
                  [idx := dd_or (sym_tr_actions self ! idx)
                     (dd_and (dd_and (dd_and (flip_zero pre0) (flip_zero add0)) (dd_not del)) w)]\<rparr>,
                action)"
  using assms by (simp add: build_actions_tr_func_weighted_def Let_def flip_zero_def)

lemma build_actions_InrE:
  assumes "build_actions_tr_func_weighted self op = Inr r"
  obtains pre0 add0 del action idx w where
    "sym_of_list (addOne (length (manager self)))
       (map (map_of (predicate_add_sym_map_curr self)) (preconditions op)) = Inr (Some pre0)"
    "sym_of_list (addOne (length (manager self)))
       (map (map_of (predicate_add_sym_map_nxt self)) (add_effects op)) = Inr (Some add0)"
    "sym_of_list (addZero (length (manager self)))
       (map (map_of (predicate_add_sym_map_nxt self)) (del_effects op)) = Inr (Some del)"
    "action_of_name (name op) = Inr action"
    "action \<in> fst ` set (weight_dict self)"
    "map_of (tr_action_idx_map self) action = Some idx"
    "idx < length (sym_tr_actions self)"
    "map_of (weight_dict self) action = Some w"
    "r = (self\<lparr>sym_tr_actions := (sym_tr_actions self)
             [idx := dd_or (sym_tr_actions self ! idx)
                (dd_and (dd_and (dd_and (flip_zero pre0) (flip_zero add0)) (dd_not del)) w)]\<rparr>,
          action)"
proof -
  let ?N = "length (manager self)"
  let ?p = "sym_of_list (addOne ?N) (map (map_of (predicate_add_sym_map_curr self)) (preconditions op))"
  let ?a = "sym_of_list (addOne ?N) (map (map_of (predicate_add_sym_map_nxt self)) (add_effects op))"
  let ?d = "sym_of_list (addZero ?N) (map (map_of (predicate_add_sym_map_nxt self)) (del_effects op))"
  note d = build_actions_tr_func_weighted_def Let_def
  obtain ps where ps: "?p = Inr ps" using assms by (cases ?p) (simp_all add: d)
  obtain as where as: "?a = Inr as" using assms ps by (cases ?a) (simp_all add: d)
  obtain ds where ds: "?d = Inr ds" using assms ps as by (cases ?d) (simp_all add: d)
  obtain action where ac: "action_of_name (name op) = Inr action"
    using assms ps as ds by (cases "action_of_name (name op)") (simp_all add: d)
  have mem: "action \<in> fst ` set (weight_dict self)"
    using assms ps as ds ac by (cases "action \<in> fst ` set (weight_dict self)") (simp_all add: d)
  obtain pre0 where pre0: "ps = Some pre0"
    using assms ps as ds ac mem by (cases ps) (simp_all add: d)
  obtain add0 where add0: "as = Some add0"
    using assms ps as ds ac mem pre0 by (cases as) (simp_all add: d)
  obtain idx where idx: "map_of (tr_action_idx_map self) action = Some idx"
    using assms ps as ds ac mem pre0 add0
    by (cases "map_of (tr_action_idx_map self) action") (simp_all add: d)
  have lt: "idx < length (sym_tr_actions self)"
    using assms ps as ds ac mem pre0 add0 idx
    by (cases "idx < length (sym_tr_actions self)") (simp_all add: d)
  obtain del where del: "ds = Some del"
    using assms ps as ds ac mem pre0 add0 idx lt by (cases ds) (simp_all add: d)
  obtain w where w: "map_of (weight_dict self) action = Some w"
    using assms ps as ds ac mem pre0 add0 idx lt del
    by (cases "map_of (weight_dict self) action") (simp_all add: d)
  have "r = (self\<lparr>sym_tr_actions := (sym_tr_actions self)
             [idx := dd_or (sym_tr_actions self ! idx)
                (dd_and (dd_and (dd_and (flip_zero pre0) (flip_zero add0)) (dd_not del)) w)]\<rparr>,
          action)"
    using assms ps as ds ac mem pre0 add0 idx lt del w by (simp add: d flip_zero_def)
  then show ?thesis using that ps as ds ac mem pre0 add0 idx lt del w by blast
qed

lemma build_actions_weight_dict:
  assumes "build_actions_tr_func_weighted s action = Inr (s', a)"
  shows "weight_dict s' = weight_dict s"
  using assms by (rule build_actions_InrE) simp

lemma create_weighted_transition_system_unknown_action:
  assumes "op \<in> set (operators self)" "action_of_name (name op) = Inr g"
    "g \<notin> fst ` set (weight_dict self)"
  shows "\<exists>e. create_weighted_transition_system self = Inl e"
  unfolding create_weighted_transition_system_def
proof (rule foldM_error_inv [where I = "\<lambda>s. weight_dict s = weight_dict self", OF assms(1)])
  show "weight_dict self = weight_dict self" by simp
next
  fix y and s s' :: "string sym_ts"
  assume "weight_dict s = weight_dict self"
    "bnd (build_actions_tr_func_weighted s y) (\<lambda>(s', a). Inr s') = Inr s'"
  then show "weight_dict s' = weight_dict self"
    by (auto simp: bnd_Inr dest: build_actions_weight_dict)
next
  fix s :: "string sym_ts"
  assume "weight_dict s = weight_dict self"
  then have "\<exists>e. build_actions_tr_func_weighted s op = Inl e"
    using build_actions_unknown_action [OF assms(2), of s] assms(3) by simp
  then show "\<exists>e. bnd (build_actions_tr_func_weighted s op) (\<lambda>(s', a). Inr s') = Inl e"
    by auto
qed

text \<open>
  C6. When the action name of some grounded operator has no entry in the weight table, the
  construction of the weighted abstraction fails: \<open>_create_weight_dict\<close> raises (a KeyError
  at the missing entry, unless an earlier operator name holds no word at all), and
  \<open>build_weighted_add_abstraction\<close> ends with that error before the transition system is
  built. In direct mode the assertion of \<open>build_actions_tr_func_weighted\<close> stops an
  operator whose action is not a key of the weight table, and the construction with it.
\<close>

theorem weight_table_missing_entry:
  assumes "op \<in> set task_operators" "action_of_name (name op) = Inr g"
  shows "(map_of self_weight_dict g = None \<longrightarrow>
            (\<exists>e. create_weight_dict self_weight_dict task_operators [] = Inl e
               \<and> (e = KeyError \<or> e = IndexError)
               \<and> build_weighted_add_abstraction self_weight_dict task_init task_goals task_facts
                    task_operators add_ts_curr_vars add_ts_next_vars ts_state_tuples
                    add_ts_lbl_vars boxes possible_lbls self_pred_int_map mgr = Inl e))
       \<and> (g \<notin> fst ` set (weight_dict self) \<longrightarrow>
            (\<exists>e. build_actions_tr_func_weighted self op = Inl e)
          \<and> (operators self = task_operators \<longrightarrow>
                (\<exists>e. create_weighted_transition_system self = Inl e)))"
proof (intro conjI impI)
  assume "map_of self_weight_dict g = None"
  then obtain e where e: "create_weight_dict self_weight_dict task_operators [] = Inl e"
      "e = KeyError \<or> e = IndexError"
    using create_weight_dict_missing [OF assms, of self_weight_dict "[]"] by auto
  then show "\<exists>e. create_weight_dict self_weight_dict task_operators [] = Inl e
               \<and> (e = KeyError \<or> e = IndexError)
               \<and> build_weighted_add_abstraction self_weight_dict task_init task_goals task_facts
                    task_operators add_ts_curr_vars add_ts_next_vars ts_state_tuples
                    add_ts_lbl_vars boxes possible_lbls self_pred_int_map mgr = Inl e"
    by (auto simp: build_weighted_add_abstraction_def)
next
  assume "g \<notin> fst ` set (weight_dict self)"
  then show "\<exists>e. build_actions_tr_func_weighted self op = Inl e"
    using build_actions_unknown_action [OF assms(2)] by simp
next
  assume "g \<notin> fst ` set (weight_dict self)" "operators self = task_operators"
  then show "\<exists>e. create_weighted_transition_system self = Inl e"
    using create_weighted_transition_system_unknown_action [of op self g] assms by simp
qed

definition ex_grasp :: operator where
  "ex_grasp = \<lparr>name = ''(grasp b0 l0)'',
               preconditions = [''(to-obj b0 l0)'', ''(on b0 l0)'', ''(gripper free)''],
               add_effects = [''(holding b0 l0)''],
               del_effects = [''(to-obj b0 l0)'', ''(on b0 l0)'', ''(gripper free)'']\<rparr>"

definition ex_direct_ts :: "string sym_ts" where
  "ex_direct_ts = \<lparr>sym_add_vars_curr = [0], sym_add_vars_next = [1], sym_add_vars_lbl = [],
      init = [], goal = [], facts = [], operators = [ex_grasp], manager = [''x0'', ''y0''],
      weight_dict = [(''transit'', addConst 2 1)], tr_action_idx_map = [(''transit'', 0)],
      sym_add_init_states = None, sym_add_goal_states = None, sym_add_state_labels = addZero 2,
      sym_tr_actions = [addZero 2], predicate_add_sym_map_curr = [],
      predicate_add_sym_map_nxt = [], predicate_add_sym_map_lbl = []\<rparr>"

lemma action_of_name_grasp: "action_of_name (name ex_grasp) = Inr ''grasp''"
  by (simp add: ex_grasp_def action_of_name_def is_space_def)

theorem weight_table_missing_entry_witness:
  "ex_grasp \<in> set [ex_grasp] \<and> action_of_name (name ex_grasp) = Inr ''grasp''
   \<and> map_of [(''transit'', 1::nat)] ''grasp'' = None
   \<and> ''grasp'' \<notin> fst ` set (weight_dict ex_direct_ts)
   \<and> operators ex_direct_ts = [ex_grasp]
   \<and> (\<exists>e. create_weight_dict [(''transit'', 1)] [ex_grasp] [] = Inl e
         \<and> (e = KeyError \<or> e = IndexError)
         \<and> build_weighted_add_abstraction [(''transit'', 1)] [] [] [] [ex_grasp] [0] [1] [[0]]
              [] [''b0''] [] [] [''x0'', ''y0''] = Inl e)
   \<and> (\<exists>e. build_actions_tr_func_weighted ex_direct_ts ex_grasp = Inl e)
   \<and> (\<exists>e. create_weighted_transition_system ex_direct_ts = Inl e)"
proof -
  have h1: "ex_grasp \<in> set [ex_grasp]" by simp
  have h3: "map_of [(''transit'', 1::nat)] ''grasp'' = None" by simp
  have h4: "''grasp'' \<notin> fst ` set (weight_dict ex_direct_ts)" by (simp add: ex_direct_ts_def)
  have h5: "operators ex_direct_ts = [ex_grasp]" by (simp add: ex_direct_ts_def)
  show ?thesis
    using weight_table_missing_entry [OF h1 action_of_name_grasp,
        of "[(''transit'', 1)]" "[]" "[]" "[]" "[0]" "[1]" "[[0]]" "[]" "[''b0'']" "[]" "[]"
           "[''x0'', ''y0'']" ex_direct_ts]
      h1 h3 h4 h5 action_of_name_grasp
    by blast
qed

lemma dict_enumerate_overflow:
  "i \<le> length vals \<Longrightarrow> length vals < i + length keys
   \<Longrightarrow> dict_enumerate vals i keys acc = Inl IndexError"
  by (induction keys arbitrary: i acc) auto

lemma create_sym_var_map_overflow:
  assumes "2 ^ length xs < length candidates"
  shows "create_sym_var_map N xs ys candidates = Inl IndexError"
  using assms dict_enumerate_overflow [where vals = "product10 (length xs)" and i = 0 and keys = candidates and acc = "[]"]
  by (simp add: create_sym_var_map_def Let_def length_product10)

lemma box_lbl_map_overflow:
  assumes "box_lbl_vars mgr lbl_vars b_id = Inr vs" "2 ^ length vs < length preds"
  shows "box_lbl_map mgr lbl_vars b_id preds = Inl IndexError"
  using assms dict_enumerate_overflow [where vals = "product10 (length vs)" and i = 0 and keys = preds and acc = "[]"]
  by (simp add: box_lbl_map_def Let_def length_product10)

lemma create_sym_state_label_map_overflow:
  assumes "(b_id, preds) \<in> set domain_lbls"
    "box_lbl_vars (manager self) (sym_add_vars_lbl self) b_id = Inr vs" "2 ^ length vs < length preds"
  shows "\<exists>e. create_sym_state_label_map self domain_lbls = Inl e"
proof -
  let ?f = "\<lambda>(b_id, preds) lbl_map.
              bnd (box_lbl_map (manager self) (sym_add_vars_lbl self) b_id preds) (\<lambda>node_int_map_lbl.
                Inr (foldl (\<lambda>m (k, v). AList.update k v m) lbl_map node_int_map_lbl))"
  have "\<exists>e. foldM ?f domain_lbls (predicate_add_sym_map_lbl self) = Inl e"
  proof (rule foldM_error [OF assms(1)])
    fix s
    show "\<exists>e. ?f (b_id, preds) s = Inl e"
      using box_lbl_map_overflow [OF assms(2,3)] by simp
  qed
  then show ?thesis by (auto simp: create_sym_state_label_map_def)
qed

text \<open>
  C7. When the candidate states outnumber the \<open>2 ^ n\<close> patterns of the \<open>n\<close> allocated
  current-state variables, \<open>_create_sym_var_map\<close> raises (the IndexError of the pattern
  lookup, which comes before the assertion on the sizes), so the constructor of the
  transition system and \<open>build_weighted_add_abstraction\<close> fail and no construction loop or
  search is reached. The same holds for the label pool of a box in
  \<open>_create_sym_state_label_map\<close>, which \<open>create_weighted_transition_system_franka\<close>
  calls first.
\<close>

theorem encoding_width_overflow:
  "(2 ^ length curr_states < card (set ts_states0) \<longrightarrow>
      create_sym_var_map (length manager0) curr_states next_states ts_states0 = Inl IndexError
    \<and> SymbolicWeightedFrankaTransitionSystem curr_states next_states lbl_states task_init
        task_goals task_facts task_operators weight_dict0 ts_state_map ts_states0 manager0
        = Inl IndexError
    \<and> (\<exists>e. build_weighted_add_abstraction self_weight_dict task_init task_goals task_facts
              task_operators curr_states next_states ts_states0 lbl_states boxes possible_lbls
              ts_state_map manager0 = Inl e))
   \<and> ((b_id, preds) \<in> set domain_lbls
        \<and> box_lbl_vars (manager self) (sym_add_vars_lbl self) b_id = Inr vs
        \<and> 2 ^ length vs < card (set preds) \<longrightarrow>
      (\<exists>e. create_sym_state_label_map self domain_lbls = Inl e
          \<and> create_weighted_transition_system_franka self boxes domain_lbls add_exist_constr = Inl e))"
proof (intro conjI impI)
  assume "2 ^ length curr_states < card (set ts_states0)"
  then have len: "2 ^ length curr_states < length ts_states0"
    using card_length [of ts_states0] by linarith
  show m: "create_sym_var_map (length manager0) curr_states next_states ts_states0 = Inl IndexError"
    using len by (rule create_sym_var_map_overflow)
  show c: "SymbolicWeightedFrankaTransitionSystem curr_states next_states lbl_states task_init
        task_goals task_facts task_operators weight_dict0 ts_state_map ts_states0 manager0
        = Inl IndexError"
    using m by (simp add: SymbolicWeightedFrankaTransitionSystem_def Let_def)
  show "\<exists>e. build_weighted_add_abstraction self_weight_dict task_init task_goals task_facts
              task_operators curr_states next_states ts_states0 lbl_states boxes possible_lbls
              ts_state_map manager0 = Inl e"
  proof (cases "create_weight_dict self_weight_dict task_operators []")
    case (Inl e)
    then show ?thesis by (simp add: build_weighted_add_abstraction_def)
  next
    case (Inr w)
    then show ?thesis
      using m by (simp add: build_weighted_add_abstraction_def Let_def
          SymbolicWeightedFrankaTransitionSystem_def)
  qed
next
  assume a: "(b_id, preds) \<in> set domain_lbls
        \<and> box_lbl_vars (manager self) (sym_add_vars_lbl self) b_id = Inr vs
        \<and> 2 ^ length vs < card (set preds)"
  then have "2 ^ length vs < length preds" using card_length [of preds] by linarith
  then obtain e where e: "create_sym_state_label_map self domain_lbls = Inl e"
    using create_sym_state_label_map_overflow [of b_id preds domain_lbls self vs] a by blast
  then show "\<exists>e. create_sym_state_label_map self domain_lbls = Inl e
          \<and> create_weighted_transition_system_franka self boxes domain_lbls add_exist_constr = Inl e"
    by (simp add: create_weighted_transition_system_franka_def franka_start_def)
qed

definition ex_small_ts :: franka_ts where
  "ex_small_ts = \<lparr>sym_add_vars_curr = [0], sym_add_vars_next = [1], sym_add_vars_lbl = [2],
      init = [], goal = [], facts = [], operators = [], manager = [''x0'', ''y0'', ''b0_0''],
      weight_dict = [], tr_action_idx_map = [],
      sym_add_init_states = None, sym_add_goal_states = None, sym_add_state_labels = addZero 3,
      sym_tr_actions = [], predicate_add_sym_map_curr = [],
      predicate_add_sym_map_nxt = [], predicate_add_sym_map_lbl = [],
      ts_states = [], pred_int_map = []\<rparr>"

theorem encoding_width_overflow_witness:
  "2 ^ length [0::nat] < card (set [[0], [1], [2::int]])
   \<and> (''b0'', [''(on b0 l0)'', ''(on b0 l1)'', ''(on b0 l2)'']) \<in>
        set [(''b0'', [''(on b0 l0)'', ''(on b0 l1)'', ''(on b0 l2)''])]
   \<and> box_lbl_vars (manager ex_small_ts) (sym_add_vars_lbl ex_small_ts) ''b0'' = Inr [2]
   \<and> 2 ^ length [2::nat] < card (set [''(on b0 l0)'', ''(on b0 l1)'', ''(on b0 l2)''])
   \<and> create_sym_var_map (length [''x0'', ''y0'']) [0] [1] [[0], [1], [2::int]] = Inl IndexError
   \<and> SymbolicWeightedFrankaTransitionSystem [0] [1] [] [] [] [] [] [] [] [[0], [1], [2]]
        [''x0'', ''y0''] = Inl IndexError
   \<and> (\<exists>e. build_weighted_add_abstraction [] [] [] [] [] [0] [1] [[0], [1], [2]] [] [] []
              [] [''x0'', ''y0''] = Inl e)
   \<and> (\<exists>e. create_sym_state_label_map ex_small_ts
              [(''b0'', [''(on b0 l0)'', ''(on b0 l1)'', ''(on b0 l2)''])] = Inl e
          \<and> create_weighted_transition_system_franka ex_small_ts []
              [(''b0'', [''(on b0 l0)'', ''(on b0 l1)'', ''(on b0 l2)''])] True = Inl e)"
proof -
  have h1: "2 ^ length [0::nat] < card (set [[0], [1], [2::int]])" by simp
  have h2: "(''b0'', [''(on b0 l0)'', ''(on b0 l1)'', ''(on b0 l2)'']) \<in>
        set [(''b0'', [''(on b0 l0)'', ''(on b0 l1)'', ''(on b0 l2)''])]" by simp
  have h3: "box_lbl_vars (manager ex_small_ts) (sym_add_vars_lbl ex_small_ts) ''b0'' = Inr [2]"
    by (simp add: box_lbl_vars_def ex_small_ts_def)
  have h4: "2 ^ length [2::nat] < card (set [''(on b0 l0)'', ''(on b0 l1)'', ''(on b0 l2)''])"
    by simp
  show ?thesis
    using encoding_width_overflow [of "[0]" "[[0], [1], [2]]" "[''x0'', ''y0'']" "[1]" "[]" "[]" "[]"
        "[]" "[]" "[]" "[]" "[]" "[]" "[]" "''b0''" "[''(on b0 l0)'', ''(on b0 l1)'', ''(on b0 l2)'']"
        "[(''b0'', [''(on b0 l0)'', ''(on b0 l1)'', ''(on b0 l2)''])]" ex_small_ts "[2]" True]
      h1 h2 h3 h4
    by blast
qed

section \<open>The state encoder is a bijection\<close>

lemma snd_set_update: "snd ` set (AList.update k v al) \<subseteq> insert v (snd ` set al)"
  by (induction al) auto

lemma distinct_snd_update:
  "distinct (map snd al) \<Longrightarrow> v \<notin> snd ` set al \<Longrightarrow> distinct (map snd (AList.update k v al))"
proof (induction al)
  case Nil
  then show ?case by simp
next
  case (Cons p al)
  show ?case
  proof (cases "fst p = k")
    case True
    then show ?thesis using Cons.prems by auto
  next
    case False
    have "snd p \<notin> snd ` set (AList.update k v al)"
      using snd_set_update [of k v al] Cons.prems by auto
    then show ?thesis using False Cons by auto
  qed
qed

lemma dict_enumerate_ok:
  assumes "distinct vals" "i + length keys \<le> length vals"
    "distinct (map fst acc)" "distinct (map snd acc)" "snd ` set acc \<subseteq> (!) vals ` {..<i}"
  shows "\<exists>d. dict_enumerate vals i keys acc = Inr d \<and> distinct (map fst d) \<and> distinct (map snd d)
           \<and> fst ` set d = fst ` set acc \<union> set keys \<and> snd ` set d \<subseteq> set vals"
  using assms(2-)
proof (induction keys arbitrary: i acc)
  case Nil
  have "(!) vals ` {..<i} \<subseteq> set vals" using Nil.prems(1) by auto
  then show ?case using Nil by auto
next
  case (Cons s ss)
  let ?acc = "AList.update s (vals ! i) acc"
  have i: "i < length vals" using Cons.prems(1) by simp
  have fresh: "vals ! i \<notin> snd ` set acc"
  proof
    assume "vals ! i \<in> snd ` set acc"
    then obtain j where "j < i" "vals ! j = vals ! i" using Cons.prems(4) by auto
    then show False using assms(1) i by (simp add: nth_eq_iff_index_eq)
  qed
  have 1: "Suc i + length ss \<le> length vals" using Cons.prems(1) by simp
  have 2: "distinct (map fst ?acc)" using Cons.prems(2) by (rule distinct_update)
  have 3: "distinct (map snd ?acc)" using Cons.prems(3) fresh by (rule distinct_snd_update)
  have 4: "snd ` set ?acc \<subseteq> (!) vals ` {..<Suc i}"
    using snd_set_update [of s "vals ! i" acc] Cons.prems(4) by (auto simp: lessThan_Suc)
  from Cons.IH [OF 1 2 3 4] obtain d where d: "dict_enumerate vals (Suc i) ss ?acc = Inr d"
    "distinct (map fst d)" "distinct (map snd d)" "fst ` set d = fst ` set ?acc \<union> set ss"
    "snd ` set d \<subseteq> set vals" by blast
  have "fst ` set ?acc = insert s (fst ` set acc)" by (simp add: dom_update)
  then show ?case using d i by auto
qed

text \<open>The maps that \<open>fill_maps\<close> builds from a pattern dictionary.\<close>

definition encode_with :: "nat \<Rightarrow> nat list \<Rightarrow> ('k \<times> bool list) list \<Rightarrow> ('k \<times> dd) list" where
  "encode_with N vars d = map (\<lambda>(k, bits). (k, cube N vars bits)) d"

lemma encode_with_append: "encode_with N vars (d @ e) = encode_with N vars d @ encode_with N vars e"
  by (simp add: encode_with_def)

lemma fst_encode_with: "map fst (encode_with N vars d) = map fst d"
  by (induction d) (auto simp: encode_with_def)

lemma cube_in_encode_with:
  assumes "distinct vars" "set vars \<subseteq> {..<N}" "length bits = length vars"
    "\<forall>(k, b) \<in> set d. length b = length vars"
    "cube N vars bits \<in> snd ` set (encode_with N vars d)"
  shows "bits \<in> snd ` set d"
proof -
  from assms(5) obtain k b where kb: "(k, b) \<in> set d" "cube N vars b = cube N vars bits"
    by (auto simp: encode_with_def)
  then have "length b = length vars" using assms(4) by auto
  then have "b = bits" using cube_inj [OF assms(1,2) _ assms(3) kb(2)] by simp
  then show ?thesis using kb(1) by force
qed

lemma fill_maps_ok:
  assumes "xs \<noteq> []" "length ys = length xs" "distinct xs" "distinct ys"
    "set xs \<subseteq> {..<N}" "set ys \<subseteq> {..<N}"
    "\<forall>(k, b) \<in> set (d0 @ d). length b = length xs" "distinct (map snd (d0 @ d))"
  shows "fill_maps N xs ys d (encode_with N xs d0) (encode_with N ys d0)
           = Inr (encode_with N xs (d0 @ d), encode_with N ys (d0 @ d))"
  using assms(7,8)
proof (induction d arbitrary: d0)
  case Nil
  then show ?case by simp
next
  case (Cons p d)
  obtain k b where p: "p = (k, b)" by (cases p)
  have len: "length b = length xs" using Cons.prems(1) p by auto
  have d0len: "\<forall>(k, b) \<in> set d0. length b = length xs" using Cons.prems(1) by auto
  have notin: "b \<notin> snd ` set d0" using Cons.prems(2) p by auto
  have b: "b \<noteq> []" using len assms(1) by auto
  have rx: "reduce dd_and (literals N xs b) = Inr (cube N xs b)"
    using assms(1) b by (rule reduce_literals_cube)
  have ry: "reduce dd_and (literals N ys b) = Inr (cube N ys b)"
    using assms(1,2) b by (intro reduce_literals_cube) auto
  have fx: "cube N xs b \<notin> snd ` set (encode_with N xs d0)"
    using cube_in_encode_with [OF assms(3,5) len d0len] notin by blast
  have fy: "cube N ys b \<notin> snd ` set (encode_with N ys d0)"
    using cube_in_encode_with [OF assms(4,6), of b d0] len d0len notin assms(2) by auto
  have 1: "\<forall>(k, b) \<in> set ((d0 @ [p]) @ d). length b = length xs" using Cons.prems(1) by auto
  have 2: "distinct (map snd ((d0 @ [p]) @ d))" using Cons.prems(2) by simp
  have "fill_maps N xs ys (p # d) (encode_with N xs d0) (encode_with N ys d0)
      = fill_maps N xs ys d (encode_with N xs (d0 @ [p])) (encode_with N ys (d0 @ [p]))"
    using p len assms(2) rx ry fx fy by (simp add: encode_with_def)
  also have "\<dots> = Inr (encode_with N xs ((d0 @ [p]) @ d), encode_with N ys ((d0 @ [p]) @ d))"
    using Cons.IH [OF 1 2] .
  finally show ?case by simp
qed

lemma create_sym_var_map_ok:
  assumes "xs \<noteq> []" "length ys = length xs" "distinct xs" "distinct ys"
    "set xs \<subseteq> {..<N}" "set ys \<subseteq> {..<N}" "length candidates \<le> 2 ^ length xs"
  shows "\<exists>d. distinct (map fst d) \<and> distinct (map snd d) \<and> fst ` set d = set candidates
           \<and> (\<forall>(k, b) \<in> set d. length b = length xs)
           \<and> create_sym_var_map N xs ys candidates = Inr (encode_with N xs d, encode_with N ys d)"
proof -
  let ?vals = "product10 (length xs)"
  have "\<exists>d. dict_enumerate ?vals 0 candidates [] = Inr d \<and> distinct (map fst d) \<and> distinct (map snd d)
           \<and> fst ` set d = fst ` set [] \<union> set candidates \<and> snd ` set d \<subseteq> set ?vals"
    using dict_enumerate_ok [where vals = ?vals and i = 0 and keys = candidates and acc = "[]"]
      assms(7)
    by (simp add: distinct_product10 length_product10)
  then obtain d where d: "dict_enumerate ?vals 0 candidates [] = Inr d" "distinct (map fst d)"
    "distinct (map snd d)" "fst ` set d = set candidates" "snd ` set d \<subseteq> set ?vals" by auto
  have lens: "\<forall>(k, b) \<in> set d. length b = length xs"
    using d(5) by (auto simp: set_product10)
  have "length (map snd d) = card (snd ` set d)"
    using d(3) distinct_card [of "map snd d"] by simp
  also have "\<dots> \<le> card (set ?vals)" using d(5) by (intro card_mono) auto
  also have "\<dots> = length ?vals" using distinct_product10 by (rule distinct_card)
  finally have size: "length d \<le> length ?vals" by simp
  have "fill_maps N xs ys d (encode_with N xs []) (encode_with N ys [])
      = Inr (encode_with N xs ([] @ d), encode_with N ys ([] @ d))"
    using lens d(3) by (intro fill_maps_ok assms) simp_all
  then have "create_sym_var_map N xs ys candidates = Inr (encode_with N xs d, encode_with N ys d)"
    using d(1,3) size by (simp add: create_sym_var_map_def bidict_def Let_def encode_with_def)
  then show ?thesis using d lens by blast
qed

lemma inv_of_Some_iff: "distinct (map snd d) \<Longrightarrow> inv_of d v = Some k \<longleftrightarrow> (k, v) \<in> set d"
proof -
  assume dist: "distinct (map snd d)"
  have eq: "map fst (map (\<lambda>(k, v). (v, k)) d) = map snd d" by (induction d) auto
  have "distinct (map fst (map (\<lambda>(k, v). (v, k)) d))" unfolding eq by (rule dist)
  then have "inv_of d v = Some k \<longleftrightarrow> (v, k) \<in> set (map (\<lambda>(k, v). (v, k)) d)"
    unfolding inv_of_def by (rule map_of_eq_Some_iff)
  then show ?thesis by auto
qed

lemma distinct_snd_encode_with:
  assumes "distinct vars" "set vars \<subseteq> {..<N}" "\<forall>(k, b) \<in> set d. length b = length vars"
    "distinct (map snd d)"
  shows "distinct (map snd (encode_with N vars d))"
proof -
  have eq: "map snd (encode_with N vars d) = map (cube N vars) (map snd d)"
    by (induction d) (auto simp: encode_with_def)
  have inj: "inj_on (cube N vars) (set (map snd d))"
    using assms(3) by (intro inj_onI cube_inj [OF assms(1,2)]) auto
  have "distinct (map (cube N vars) (map snd d))"
    by (rule iffD2 [OF distinct_map]) (use assms(4) inj in blast)
  then show ?thesis unfolding eq .
qed

text \<open>
  C4. With \<open>n \<ge> 1\<close> distinct current variables, as many distinct next variables and at
  most \<open>2 ^ n\<close> candidates, \<open>_create_sym_var_map\<close> succeeds, and there is an injective
  assignment \<open>pat\<close> of bit patterns to the candidates such that each candidate is mapped to
  the cube of its pattern over the current variables and to the cube of the same pattern
  over the next variables. Decoding the cube of a candidate gives the candidate back, and
  every cube of either map decodes to a candidate whose encoding is that cube.
\<close>

theorem state_encoding_bijection:
  assumes "xs \<noteq> []" "length ys = length xs" "distinct xs" "distinct ys"
    "set xs \<subseteq> {..<N}" "set ys \<subseteq> {..<N}" "length candidates \<le> 2 ^ length xs"
  shows "\<exists>curr nxt pat.
           create_sym_var_map N xs ys candidates = Inr (curr, nxt)
         \<and> fst ` set curr = set candidates \<and> fst ` set nxt = set candidates
         \<and> distinct (map fst curr) \<and> distinct (map snd curr) \<and> distinct (map snd nxt)
         \<and> inj_on pat (set candidates)
         \<and> (\<forall>s \<in> set candidates.
               length (pat s) = length xs
             \<and> map_of curr s = Some (cube N xs (pat s))
             \<and> map_of nxt s = Some (cube N ys (pat s))
             \<and> inv_of curr (cube N xs (pat s)) = Some s
             \<and> inv_of nxt (cube N ys (pat s)) = Some s)
         \<and> (\<forall>c s. inv_of curr c = Some s \<longrightarrow> s \<in> set candidates \<and> map_of curr s = Some c)
         \<and> (\<forall>c s. inv_of nxt c = Some s \<longrightarrow> s \<in> set candidates \<and> map_of nxt s = Some c)"
proof -
  from create_sym_var_map_ok [OF assms] obtain d where d:
    "distinct (map fst d)" "distinct (map snd d)" "fst ` set d = set candidates"
    "\<forall>(k, b) \<in> set d. length b = length xs"
    "create_sym_var_map N xs ys candidates = Inr (encode_with N xs d, encode_with N ys d)"
    by blast
  let ?curr = "encode_with N xs d" and ?nxt = "encode_with N ys d"
  let ?pat = "\<lambda>s. the (map_of d s)"
  have dy: "\<forall>(k, b) \<in> set d. length b = length ys" using d(4) assms(2) by simp
  have kc: "distinct (map fst ?curr)" and kn: "distinct (map fst ?nxt)"
    using d(1) by (simp_all add: fst_encode_with)
  have vc: "distinct (map snd ?curr)"
    using assms(3,5) d(4,2) by (rule distinct_snd_encode_with)
  have vn: "distinct (map snd ?nxt)"
    using assms(4,6) dy d(2) by (rule distinct_snd_encode_with)
  have mem: "\<And>s. s \<in> set candidates \<Longrightarrow> (s, ?pat s) \<in> set d"
  proof -
    fix s assume "s \<in> set candidates"
    then obtain b where "(s, b) \<in> set d" using d(3) by force
    then show "(s, ?pat s) \<in> set d" using d(1) by simp
  qed
  have inj: "inj_on ?pat (set candidates)"
  proof (rule inj_onI)
    fix s t assume st: "s \<in> set candidates" "t \<in> set candidates" "?pat s = ?pat t"
    have a: "(s, ?pat s) \<in> set d" by (rule mem [OF st(1)])
    have b: "(t, ?pat s) \<in> set d" using mem [OF st(2)] st(3) by simp
    have "inv_of d (?pat s) = Some s" "inv_of d (?pat s) = Some t"
      using a b d(2) by (simp_all add: inv_of_Some_iff)
    then show "s = t" by simp
  qed
  have enc: "\<And>s vars. s \<in> set candidates \<Longrightarrow> (s, cube N vars (?pat s)) \<in> set (encode_with N vars d)"
    using mem by (force simp: encode_with_def)
  have each: "\<forall>s \<in> set candidates.
               length (?pat s) = length xs
             \<and> map_of ?curr s = Some (cube N xs (?pat s))
             \<and> map_of ?nxt s = Some (cube N ys (?pat s))
             \<and> inv_of ?curr (cube N xs (?pat s)) = Some s
             \<and> inv_of ?nxt (cube N ys (?pat s)) = Some s"
  proof
    fix s assume s: "s \<in> set candidates"
    have "length (?pat s) = length xs" using mem [OF s] d(4) by auto
    moreover have "map_of ?curr s = Some (cube N xs (?pat s))"
      using enc [OF s] kc by simp
    moreover have "map_of ?nxt s = Some (cube N ys (?pat s))"
      using enc [OF s] kn by simp
    moreover have "inv_of ?curr (cube N xs (?pat s)) = Some s"
      using enc [OF s] vc by (simp add: inv_of_Some_iff)
    moreover have "inv_of ?nxt (cube N ys (?pat s)) = Some s"
      using enc [OF s] vn by (simp add: inv_of_Some_iff)
    ultimately show "length (?pat s) = length xs
             \<and> map_of ?curr s = Some (cube N xs (?pat s))
             \<and> map_of ?nxt s = Some (cube N ys (?pat s))
             \<and> inv_of ?curr (cube N xs (?pat s)) = Some s
             \<and> inv_of ?nxt (cube N ys (?pat s)) = Some s" by blast
  qed
  have fc: "fst ` set ?curr = set candidates" and fn: "fst ` set ?nxt = set candidates"
    using d(3) fst_encode_with [of N xs d] fst_encode_with [of N ys d]
    by (metis set_map)+
  have decc: "\<forall>c s. inv_of ?curr c = Some s \<longrightarrow> s \<in> set candidates \<and> map_of ?curr s = Some c"
  proof (intro allI impI)
    fix c s assume "inv_of ?curr c = Some s"
    then have in_set: "(s, c) \<in> set ?curr" using vc by (simp add: inv_of_Some_iff)
    then have "s \<in> fst ` set ?curr" by force
    then show "s \<in> set candidates \<and> map_of ?curr s = Some c" using fc in_set kc by simp
  qed
  have decn: "\<forall>c s. inv_of ?nxt c = Some s \<longrightarrow> s \<in> set candidates \<and> map_of ?nxt s = Some c"
  proof (intro allI impI)
    fix c s assume "inv_of ?nxt c = Some s"
    then have in_set: "(s, c) \<in> set ?nxt" using vn by (simp add: inv_of_Some_iff)
    then have "s \<in> fst ` set ?nxt" by force
    then show "s \<in> set candidates \<and> map_of ?nxt s = Some c" using fn in_set kn by simp
  qed
  show ?thesis
    using d(5) fc fn kc vc vn inj each decc decn by blast
qed


theorem state_encoding_bijection_witness:
  "[0, 2::nat] \<noteq> [] \<and> length [1, 3::nat] = length [0, 2::nat] \<and> distinct [0, 2::nat]
   \<and> distinct [1, 3::nat] \<and> set [0, 2::nat] \<subseteq> {..<4} \<and> set [1, 3::nat] \<subseteq> {..<4}
   \<and> length [[0, 2, 3, 4], [2, 3, 4], [1::int]] \<le> 2 ^ length [0, 2::nat]
   \<and> (\<exists>curr nxt pat.
           create_sym_var_map 4 [0, 2] [1, 3] [[0, 2, 3, 4], [2, 3, 4], [1::int]] = Inr (curr, nxt)
         \<and> fst ` set curr = set [[0, 2, 3, 4], [2, 3, 4], [1]]
         \<and> fst ` set nxt = set [[0, 2, 3, 4], [2, 3, 4], [1]]
         \<and> distinct (map fst curr) \<and> distinct (map snd curr) \<and> distinct (map snd nxt)
         \<and> inj_on pat (set [[0, 2, 3, 4], [2, 3, 4], [1]])
         \<and> (\<forall>s \<in> set [[0, 2, 3, 4], [2, 3, 4], [1]].
               length (pat s) = length [0, 2::nat]
             \<and> map_of curr s = Some (cube 4 [0, 2] (pat s))
             \<and> map_of nxt s = Some (cube 4 [1, 3] (pat s))
             \<and> inv_of curr (cube 4 [0, 2] (pat s)) = Some s
             \<and> inv_of nxt (cube 4 [1, 3] (pat s)) = Some s)
         \<and> (\<forall>c s. inv_of curr c = Some s \<longrightarrow>
               s \<in> set [[0, 2, 3, 4], [2, 3, 4], [1]] \<and> map_of curr s = Some c)
         \<and> (\<forall>c s. inv_of nxt c = Some s \<longrightarrow>
               s \<in> set [[0, 2, 3, 4], [2, 3, 4], [1]] \<and> map_of nxt s = Some c))"
proof -
  have h1: "[0, 2::nat] \<noteq> []" by simp
  have h2: "length [1, 3::nat] = length [0, 2::nat]" by simp
  have h3: "distinct [0, 2::nat]" by simp
  have h4: "distinct [1, 3::nat]" by simp
  have h5: "set [0, 2::nat] \<subseteq> {..<4}" by simp
  have h6: "set [1, 3::nat] \<subseteq> {..<4}" by simp
  have h7: "length [[0, 2, 3, 4], [2, 3, 4], [1::int]] \<le> 2 ^ length [0, 2::nat]" by simp
  note w = state_encoding_bijection [OF h1 h2 h3 h4 h5 h6 h7]
  show ?thesis by (intro conjI h1 h2 h3 h4 h5 h6 h7 w)
qed

section \<open>What the construction loop leaves unchanged\<close>

text \<open>
  The loop and the label map only write the action relations, the observation relation
  and the label map of the object; every other attribute keeps its value.
\<close>

definition same_encoding :: "franka_ts \<Rightarrow> franka_ts \<Rightarrow> bool" where
  "same_encoding a b \<longleftrightarrow>
     (\<exists>tr obs lbl. length tr = length (sym_tr_actions a)
        \<and> b = a\<lparr>sym_tr_actions := tr, sym_add_state_labels := obs, predicate_add_sym_map_lbl := lbl\<rparr>)"

lemma same_encoding_refl: "same_encoding a a"
  unfolding same_encoding_def
  by (intro exI [of _ "sym_tr_actions a"] exI [of _ "sym_add_state_labels a"]
        exI [of _ "predicate_add_sym_map_lbl a"]) simp

lemma same_encoding_trans:
  assumes "same_encoding a b" "same_encoding b c"
  shows "same_encoding a c"
proof -
  from assms(1) obtain tr obs lbl where b: "length tr = length (sym_tr_actions a)"
    "b = a\<lparr>sym_tr_actions := tr, sym_add_state_labels := obs, predicate_add_sym_map_lbl := lbl\<rparr>"
    unfolding same_encoding_def by blast
  from assms(2) obtain tr' obs' lbl' where c: "length tr' = length (sym_tr_actions b)"
    "c = b\<lparr>sym_tr_actions := tr', sym_add_state_labels := obs', predicate_add_sym_map_lbl := lbl'\<rparr>"
    unfolding same_encoding_def by blast
  have "length tr' = length (sym_tr_actions a)" using b c(1) by simp
  moreover have "c = a\<lparr>sym_tr_actions := tr', sym_add_state_labels := obs',
      predicate_add_sym_map_lbl := lbl'\<rparr>"
    using b(2) c(2) by simp
  ultimately show ?thesis unfolding same_encoding_def by blast
qed

lemma same_encoding_fields:
  assumes "same_encoding a b"
  shows "sym_add_vars_curr b = sym_add_vars_curr a" "sym_add_vars_next b = sym_add_vars_next a"
    "sym_add_vars_lbl b = sym_add_vars_lbl a" "operators b = operators a" "manager b = manager a"
    "weight_dict b = weight_dict a" "tr_action_idx_map b = tr_action_idx_map a"
    "sym_add_init_states b = sym_add_init_states a" "sym_add_goal_states b = sym_add_goal_states a"
    "predicate_add_sym_map_curr b = predicate_add_sym_map_curr a"
    "predicate_add_sym_map_nxt b = predicate_add_sym_map_nxt a"
    "pred_int_map b = pred_int_map a" "ts_states b = ts_states a"
    "length (sym_tr_actions b) = length (sym_tr_actions a)"
  using assms unfolding same_encoding_def by auto

lemma add_edge_InrE:
  assumes "add_edge_to_action_tr self action_name s t = Inr self'"
  obtains c c' idx w where
    "map_of (predicate_add_sym_map_curr self) s = Some c"
    "map_of (predicate_add_sym_map_nxt self) t = Some c'"
    "map_of (tr_action_idx_map self) action_name = Some idx"
    "idx < length (sym_tr_actions self)"
    "map_of (weight_dict self) action_name = Some w"
    "self' = self\<lparr>sym_tr_actions := (sym_tr_actions self)
               [idx := dd_or (sym_tr_actions self ! idx) (dd_and (dd_and c c') w)]\<rparr>"
  using assms unfolding add_edge_to_action_tr_def
  by (auto split: option.splits if_splits)

lemma add_edge_same_encoding:
  assumes "add_edge_to_action_tr self action_name s t = Inr self'"
  shows "same_encoding self self'"
  using assms
proof (rule add_edge_InrE)
  fix c c' idx w
  assume "self' = self\<lparr>sym_tr_actions := (sym_tr_actions self)
               [idx := dd_or (sym_tr_actions self ! idx) (dd_and (dd_and c c') w)]\<rparr>"
  then show ?thesis
    unfolding same_encoding_def
    by (intro exI [of _ "(sym_tr_actions self)
               [idx := dd_or (sym_tr_actions self ! idx) (dd_and (dd_and c c') w)]"]
          exI [of _ "sym_add_state_labels self"] exI [of _ "predicate_add_sym_map_lbl self"]) simp
qed

lemma same_encoding_labels:
  assumes "same_encoding a b"
  shows "same_encoding a (b\<lparr>sym_add_state_labels := obs\<rparr>)"
proof -
  have "same_encoding b (b\<lparr>sym_add_state_labels := obs\<rparr>)"
    unfolding same_encoding_def
    by (intro exI [of _ "sym_tr_actions b"] exI [of _ obs]
          exI [of _ "predicate_add_sym_map_lbl b"]) simp
  with assms show ?thesis by (rule same_encoding_trans)
qed

lemma action_successor_InrE:
  assumes "action_successor action valid_pre st = Inr st'"
  obtains add_tuple del_tuple next_sym_state self' next_tuple_lbl next_lbl_sym where
    "get_tuple_from_state (pred_int_map (lts st)) (add_effects action) = Inr add_tuple"
    "get_tuple_from_state (pred_int_map (lts st)) (del_effects action) = Inr del_tuple"
    "map_of (predicate_add_sym_map_nxt (lts st)) (next_tuple_of valid_pre del_tuple add_tuple)
       = Some next_sym_state"
    "add_edge_to_action_tr (lts st) (name action) valid_pre
       (next_tuple_of valid_pre del_tuple add_tuple) = Inr self'"
    "get_conds_from_state (pred_int_map (lts st)) (next_tuple_of valid_pre del_tuple add_tuple)
       True False = Inr next_tuple_lbl"
    "get_sym_state_lbl_from_tuple self' next_tuple_lbl = Inr next_lbl_sym"
    "st' = st\<lparr>lts := self'\<lparr>sym_add_state_labels :=
                    dd_or (sym_add_state_labels self')
                      (dd_and (swapVariables (length (manager (lts st))) (sym_add_vars_curr self')
                                 (sym_add_vars_next self') next_sym_state) next_lbl_sym)\<rparr>,
               open_list := (open_list st)
                 (layer st + 1 := dd_or (open_list st (layer st + 1))
                    (swapVariables (length (manager (lts st))) (sym_add_vars_curr self')
                       (sym_add_vars_next self') next_sym_state))\<rparr>"
  using assms
  by (auto simp: action_successor_def Let_def bnd_Inr split: option.splits)

lemma action_successor_frame:
  assumes "action_successor action valid_pre st = Inr st'"
  shows "same_encoding (lts st) (lts st')"
  using assms
proof (rule action_successor_InrE)
  fix add_tuple del_tuple next_sym_state self' next_tuple_lbl next_lbl_sym
  assume e: "add_edge_to_action_tr (lts st) (name action) valid_pre
       (next_tuple_of valid_pre del_tuple add_tuple) = Inr self'"
    and st': "st' = st\<lparr>lts := self'\<lparr>sym_add_state_labels :=
                    dd_or (sym_add_state_labels self')
                      (dd_and (swapVariables (length (manager (lts st))) (sym_add_vars_curr self')
                                 (sym_add_vars_next self') next_sym_state) next_lbl_sym)\<rparr>,
               open_list := (open_list st)
                 (layer st + 1 := dd_or (open_list st (layer st + 1))
                    (swapVariables (length (manager (lts st))) (sym_add_vars_curr self')
                       (sym_add_vars_next self') next_sym_state))\<rparr>"
  show ?thesis
    using same_encoding_labels [OF add_edge_same_encoding [OF e]] st' by simp
qed

lemma process_action_frame:
  assumes "process_action b a t action vs = Inr vs'"
  shows "same_encoding (lts (snd vs)) (lts (snd vs'))"
  using assms
  by (auto simp: process_action_def bnd_Inr same_encoding_refl action_successor_frame
      split: prod.splits option.splits)

lemma foldM_process_action_frame:
  "foldM (process_action b a t) ops vs = Inr vs' \<Longrightarrow> same_encoding (lts (snd vs)) (lts (snd vs'))"
proof (induction ops arbitrary: vs)
  case Nil
  then show ?case by (simp add: same_encoding_refl)
next
  case (Cons x ops)
  then obtain v1 where v1: "process_action b a t x vs = Inr v1"
    and rest: "foldM (process_action b a t) ops v1 = Inr vs'"
    by (auto split: sum.splits)
  show ?case using same_encoding_trans [OF process_action_frame [OF v1] Cons.IH [OF rest]] .
qed

lemma close_valid_pre_frame:
  assumes "close_valid_pre c st = Inr st'"
  shows "same_encoding (lts st) (lts st')"
proof -
  from assms obtain obs where "lts st' = (lts st)\<lparr>sym_add_state_labels := obs\<rparr>"
    by (auto simp: close_valid_pre_def Let_def bnd_Inr split: option.splits)
  then show ?thesis using same_encoding_labels [OF same_encoding_refl] by simp
qed

lemma foldM_close_valid_pre_frame:
  "foldM close_valid_pre cs st = Inr st' \<Longrightarrow> same_encoding (lts st) (lts st')"
proof (induction cs arbitrary: st)
  case Nil
  then show ?case by (simp add: same_encoding_refl)
next
  case (Cons c cs)
  then obtain s1 where s1: "close_valid_pre c st = Inr s1" and rest: "foldM close_valid_pre cs s1 = Inr st'"
    by (auto split: sum.splits)
  show ?case using same_encoding_trans [OF close_valid_pre_frame [OF s1] Cons.IH [OF rest]] .
qed

lemma process_state_frame:
  assumes "process_state b a c st = Inr st'"
  shows "same_encoding (lts st) (lts st')"
proof -
  from assms obtain t vpl st1 where
    f1: "foldM (process_action b a t) (operators (lts st)) ([], st) = Inr (vpl, st1)"
    and f2: "foldM close_valid_pre vpl st1 = Inr st'"
    by (auto simp: process_state_def bnd_Inr split: option.splits)
  have "same_encoding (lts st) (lts st1)" using foldM_process_action_frame [OF f1] by simp
  then show ?thesis using foldM_close_valid_pre_frame [OF f2] by (rule same_encoding_trans)
qed

lemma foldM_process_state_frame:
  "foldM (process_state b a) cs st = Inr st' \<Longrightarrow> same_encoding (lts st) (lts st')"
proof (induction cs arbitrary: st)
  case Nil
  then show ?case by (simp add: same_encoding_refl)
next
  case (Cons c cs)
  then obtain s1 where s1: "process_state b a c st = Inr s1"
    and rest: "foldM (process_state b a) cs s1 = Inr st'"
    by (auto split: sum.splits)
  show ?case using same_encoding_trans [OF process_state_frame [OF s1] Cons.IH [OF rest]] .
qed

lemma franka_layer_frame:
  assumes "franka_layer b a st = Inr st'"
  shows "same_encoding (lts st) (lts st')"
proof (cases "isZero (dd_and (open_list st (layer st)) (dd_not (closed_dd st)))")
  case True
  then show ?thesis using assms by (auto simp: franka_layer_unfold Let_def same_encoding_refl)
next
  case False
  let ?o = "dd_and (open_list st (layer st)) (dd_not (closed_dd st))"
  let ?st1 = "st\<lparr>open_list := (open_list st)(layer st := ?o), closed_dd := dd_or (closed_dd st) ?o\<rparr>"
  from assms False obtain cs st2 where
    f: "foldM (process_state b a) cs ?st1 = Inr st2" and st': "st' = st2\<lparr>layer := layer st2 + 1\<rparr>"
    by (auto simp: franka_layer_unfold Let_def bnd_Inr)
  show ?thesis using foldM_process_state_frame [OF f] st' by simp
qed

lemma franka_loop_frame:
  "franka_loop b a st = Inr st' \<Longrightarrow> same_encoding (lts st) (lts st')"
proof (induction b a st rule: franka_loop.induct)
  case (1 b a st)
  show ?case
  proof (cases "isZero (open_list st (layer st))")
    case True
    then have "st' = st" using "1.prems" by (simp add: franka_loop.simps [of b a st])
    then show ?thesis by (simp add: same_encoding_refl)
  next
    case False
    then obtain st1 where l: "franka_layer b a st = Inr st1" and r: "franka_loop b a st1 = Inr st'"
      using "1.prems" by (auto simp: franka_loop.simps [of b a st] split: sum.splits)
    show ?thesis
      using same_encoding_trans [OF franka_layer_frame [OF l] "1.IH" [OF False l r]] .
  qed
qed

lemma franka_start_frame:
  assumes "franka_start self lbls = Inr st"
  shows "same_encoding self (lts st)"
proof -
  from assms obtain self1 where c: "create_sym_state_label_map self lbls = Inr self1"
    by (auto simp: franka_start_def bnd_Inr)
  then have 1: "same_encoding self self1"
    unfolding same_encoding_def
    by (auto simp: create_sym_state_label_map_def bnd_Inr
        intro!: exI [of _ "sym_tr_actions self"] exI [of _ "sym_add_state_labels self"])
  from assms c obtain obs where "lts st = self1\<lparr>sym_add_state_labels := obs\<rparr>"
    by (auto simp: franka_start_def Let_def bnd_Inr split: option.splits)
  then have "same_encoding self1 (lts st)"
    using same_encoding_labels [OF same_encoding_refl] by simp
  with 1 show ?thesis by (rule same_encoding_trans)
qed

lemma create_weighted_transition_system_franka_frame:
  assumes "create_weighted_transition_system_franka self boxes lbls aec = Inr st"
  shows "same_encoding self (lts st)"
proof -
  from assms obtain st0 where s: "franka_start self lbls = Inr st0"
    and l: "franka_loop boxes (if length boxes = 1 then False else aec) st0 = Inr st"
    by (auto simp: create_weighted_transition_system_franka_def Let_def bnd_Inr)
  show ?thesis using same_encoding_trans [OF franka_start_frame [OF s] franka_loop_frame [OF l]] .
qed

section \<open>Initial and goal diagrams after construction\<close>

lemma lookup_all_Inr:
  "\<forall>k \<in> set ks. m k \<noteq> None \<Longrightarrow> lookup_all m ks = Inr (map (\<lambda>k. the (m k)) ks)"
  by (induction ks) auto

lemma lookup_all_InrD:
  "lookup_all m ks = Inr vs \<Longrightarrow> vs = map (\<lambda>k. the (m k)) ks \<and> (\<forall>k \<in> set ks. m k \<noteq> None)"
  by (induction ks arbitrary: vs) (auto split: option.splits sum.splits)

lemma get_tuple_from_state_InrD:
  assumes "get_tuple_from_state pim preds = Inr t"
  shows "t = sort (map (\<lambda>p. the (map_of pim p)) preds)" "\<forall>p \<in> set preds. map_of pim p \<noteq> None"
proof -
  from assms obtain ids where l: "lookup_all (map_of pim) preds = Inr ids" and t: "t = sort ids"
    by (auto simp: get_tuple_from_state_def bnd_Inr)
  show "t = sort (map (\<lambda>p. the (map_of pim p)) preds)" using lookup_all_InrD [OF l] t by simp
  show "\<forall>p \<in> set preds. map_of pim p \<noteq> None" using lookup_all_InrD [OF l] by simp
qed

lemma initialize_franka_InrE:
  assumes "initialize_sym_init_goal_states_franka self0 = Inr self"
  obtains init_tuple c where
    "get_tuple_from_state (pred_int_map self0) (init self0) = Inr init_tuple"
    "map_of (predicate_add_sym_map_curr self0) init_tuple = Some c"
    "self = self0\<lparr>sym_add_init_states := Some c, sym_add_goal_states := None\<rparr>"
  using assms
  by (auto simp: initialize_sym_init_goal_states_franka_def Let_def bnd_Inr split: if_splits)

lemma franka_constructor_InrE:
  assumes "SymbolicWeightedFrankaTransitionSystem curr_states next_states lbl_states task_init
      task_goals task_facts task_operators weight_dict0 ts_state_map ts_states0 manager0 = Inr self"
  obtains m_curr m_nxt init_tuple c where
    "create_sym_var_map (length manager0) curr_states next_states ts_states0 = Inr (m_curr, m_nxt)"
    "distinct (map snd m_curr)" "distinct (map snd m_nxt)"
    "get_tuple_from_state ts_state_map task_init = Inr init_tuple"
    "map_of m_curr init_tuple = Some c"
    "self = \<lparr>sym_add_vars_curr = curr_states, sym_add_vars_next = next_states,
              sym_add_vars_lbl = lbl_states, init = task_init, goal = task_goals,
              facts = task_facts, operators = task_operators, manager = manager0,
              weight_dict = weight_dict0,
              tr_action_idx_map = zip (map fst weight_dict0) [0..<length weight_dict0],
              sym_add_init_states = Some c, sym_add_goal_states = None,
              sym_add_state_labels = addZero (length manager0),
              sym_tr_actions = replicate (length weight_dict0) (addZero (length manager0)),
              predicate_add_sym_map_curr = m_curr, predicate_add_sym_map_nxt = m_nxt,
              predicate_add_sym_map_lbl = [],
              ts_states = ts_states0, pred_int_map = ts_state_map\<rparr>"
proof -
  from assms obtain m_curr m_nxt self0 where
    m: "create_sym_var_map (length manager0) curr_states next_states ts_states0 = Inr (m_curr, m_nxt)"
    and b1: "bidict m_curr = Inr m_curr" and b2: "bidict m_nxt = Inr m_nxt"
    and s0: "self0 = initialize_adds_for_actions
               (\<lparr>sym_add_vars_curr = curr_states, sym_add_vars_next = next_states,
                  sym_add_vars_lbl = lbl_states, init = task_init, goal = task_goals,
                  facts = task_facts, operators = task_operators, manager = manager0,
                  weight_dict = weight_dict0, tr_action_idx_map = [],
                  sym_add_init_states = Some (addZero (length manager0)),
                  sym_add_goal_states = Some (addZero (length manager0)),
                  sym_add_state_labels = addZero (length manager0), sym_tr_actions = [],
                  predicate_add_sym_map_curr = [], predicate_add_sym_map_nxt = [],
                  predicate_add_sym_map_lbl = [],
                  ts_states = ts_states0, pred_int_map = ts_state_map\<rparr>
                \<lparr>predicate_add_sym_map_curr := m_curr, predicate_add_sym_map_nxt := m_nxt\<rparr>)"
    and i: "initialize_sym_init_goal_states_franka self0 = Inr self"
    by (auto simp: SymbolicWeightedFrankaTransitionSystem_def Let_def bnd_Inr bidict_def
        split: if_splits)
  have d: "distinct (map snd m_curr)" "distinct (map snd m_nxt)"
    using b1 b2 by (auto simp: bidict_def split: if_splits)
  from i obtain init_tuple c where
    t: "get_tuple_from_state (pred_int_map self0) (init self0) = Inr init_tuple"
    and c: "map_of (predicate_add_sym_map_curr self0) init_tuple = Some c"
    and self: "self = self0\<lparr>sym_add_init_states := Some c, sym_add_goal_states := None\<rparr>"
    by (rule initialize_franka_InrE)
  show ?thesis
    using that [OF m d, of init_tuple c] t c self
    by (simp add: s0 initialize_adds_for_actions_def)
qed

text \<open>
  C10. After the constructor of the weighted Franka transition system, the symbolic
  initial state is the cube that the current-state map holds for the tuple of the ids of
  the initial predicates in ascending order (it is not \<^verbatim>\<open>None\<close>), whatever the order in
  which the task lists them, and the symbolic goal state is \<^verbatim>\<open>None\<close>; the
  construction loop changes neither. The constructor of the base weighted transition
  system sets the goal diagram to the disjunction (\<^verbatim>\<open>reduce\<close> with \<^verbatim>\<open>|\<close>) of what the
  current-state map holds for the goal predicates.
\<close>

theorem franka_goal_states_none:
  assumes "SymbolicWeightedFrankaTransitionSystem curr_states next_states lbl_states task_init
      task_goals task_facts task_operators weight_dict0 ts_state_map ts_states0 manager0 = Inr self"
  shows "sym_add_goal_states self = None
       \<and> (\<exists>init_tuple c. get_tuple_from_state ts_state_map task_init = Inr init_tuple
             \<and> init_tuple = sort (map (\<lambda>p. the (map_of ts_state_map p)) task_init)
             \<and> sorted init_tuple
             \<and> map_of (predicate_add_sym_map_curr self) init_tuple = Some c
             \<and> sym_add_init_states self = Some c)
       \<and> (\<forall>st. create_weighted_transition_system_franka self boxes state_lbls add_exist_constr
                  = Inr st \<longrightarrow>
               sym_add_goal_states (lts st) = None
             \<and> sym_add_init_states (lts st) = sym_add_init_states self)
       \<and> (\<forall>base. SymbolicWeightedTransitionSystem curr_states' next_states' lbl_states' task_init'
                  task_goals' task_facts' task_operators' weight_dict' manager' = Inr base \<longrightarrow>
               reduce_opt dd_or (map (map_of (predicate_add_sym_map_curr base)) task_goals')
                 = Inr (sym_add_goal_states base))"
proof (intro conjI allI impI)
  show g: "sym_add_goal_states self = None"
    using assms by (rule franka_constructor_InrE) simp
  show "\<exists>init_tuple c. get_tuple_from_state ts_state_map task_init = Inr init_tuple
             \<and> init_tuple = sort (map (\<lambda>p. the (map_of ts_state_map p)) task_init)
             \<and> sorted init_tuple
             \<and> map_of (predicate_add_sym_map_curr self) init_tuple = Some c
             \<and> sym_add_init_states self = Some c"
    using assms
  proof (rule franka_constructor_InrE)
    fix m_curr m_nxt :: "(int list \<times> dd) list" and init_tuple c
    assume t: "get_tuple_from_state ts_state_map task_init = Inr init_tuple"
      and c: "map_of m_curr init_tuple = Some c"
      and self: "self = \<lparr>sym_add_vars_curr = curr_states, sym_add_vars_next = next_states,
              sym_add_vars_lbl = lbl_states, init = task_init, goal = task_goals,
              facts = task_facts, operators = task_operators, manager = manager0,
              weight_dict = weight_dict0,
              tr_action_idx_map = zip (map fst weight_dict0) [0..<length weight_dict0],
              sym_add_init_states = Some c, sym_add_goal_states = None,
              sym_add_state_labels = addZero (length manager0),
              sym_tr_actions = replicate (length weight_dict0) (addZero (length manager0)),
              predicate_add_sym_map_curr = m_curr, predicate_add_sym_map_nxt = m_nxt,
              predicate_add_sym_map_lbl = [],
              ts_states = ts_states0, pred_int_map = ts_state_map\<rparr>"
    have e: "init_tuple = sort (map (\<lambda>p. the (map_of ts_state_map p)) task_init)"
      by (rule get_tuple_from_state_InrD(1) [OF t])
    have "sorted init_tuple" unfolding e by simp
    then show ?thesis using t e c by (simp add: self)
  qed
  fix st
  assume "create_weighted_transition_system_franka self boxes state_lbls add_exist_constr = Inr st"
  then have f: "same_encoding self (lts st)"
    by (rule create_weighted_transition_system_franka_frame)
  show "sym_add_goal_states (lts st) = None" using same_encoding_fields(9) [OF f] g by simp
  show "sym_add_init_states (lts st) = sym_add_init_states self"
    using same_encoding_fields(8) [OF f] .
next
  fix base
  assume "SymbolicWeightedTransitionSystem curr_states' next_states' lbl_states' task_init'
     task_goals' task_facts' task_operators' weight_dict' manager' = Inr base"
  then show "reduce_opt dd_or (map (map_of (predicate_add_sym_map_curr base)) task_goals')
                 = Inr (sym_add_goal_states base)"
    by (auto simp: SymbolicWeightedTransitionSystem_def Let_def bnd_Inr
        initialize_sym_init_goal_states_def initialize_adds_for_actions_def)
qed

definition ex_pim :: "(string \<times> int) list" where
  "ex_pim = [(''(ready l0)'', 0), (''(holding b0 l0)'', 1), (''(to-obj b0 l0)'', 2),
             (''(on b0 l0)'', 3), (''(gripper free)'', 4)]"

definition ex_mgr :: "string list" where
  "ex_mgr = [''x0'', ''y0'', ''x1'', ''y1'', ''b0_0'', ''b1_0'']"

definition ex_franka :: "error + franka_ts" where
  "ex_franka = SymbolicWeightedFrankaTransitionSystem [0, 2] [1, 3] [4, 5]
     [''(gripper free)'', ''(on b0 l0)'', ''(ready l0)'', ''(to-obj b0 l0)''] [''(holding b0 l0)'']
     (map fst ex_pim) [ex_grasp] [(''(grasp b0 l0)'', addConst 6 2)] ex_pim
     [[0, 2, 3, 4], [2, 3, 4], [1], [0, 1]] ex_mgr"

definition ex_lbls :: "(string \<times> string list) list" where
  "ex_lbls = [(''b0'', [''(on b0 l0)'']), (''gripper'', [''(gripper free)''])]"

definition ex_base :: "error + string sym_ts" where
  "ex_base = SymbolicWeightedTransitionSystem [0] [1] [] [''(at l0)''] [''(at l1)'']
     [''(at l0)'', ''(at l1)''] [] [(''move'', addConst 2 1)] [''x0'', ''y0'']"

lemma ex_franka_ok: "\<not> isl ex_franka"
  by code_simp

lemma ex_base_ok: "\<not> isl ex_base"
  by code_simp

lemma ex_run_ok:
  "\<not> isl (bnd ex_franka (\<lambda>self. create_weighted_transition_system_franka self [''b0''] ex_lbls True))"
  by code_simp

lemma not_isl_Inr: "\<not> isl x \<Longrightarrow> \<exists>y. x = Inr y"
  by (cases x) auto

theorem franka_goal_states_none_witness:
  "\<exists>self st base.
      SymbolicWeightedFrankaTransitionSystem [0, 2] [1, 3] [4, 5]
        [''(gripper free)'', ''(on b0 l0)'', ''(ready l0)'', ''(to-obj b0 l0)''] [''(holding b0 l0)'']
        (map fst ex_pim) [ex_grasp] [(''(grasp b0 l0)'', addConst 6 2)] ex_pim
        [[0, 2, 3, 4], [2, 3, 4], [1], [0, 1]] ex_mgr = Inr self
    \<and> create_weighted_transition_system_franka self [''b0''] ex_lbls True = Inr st
    \<and> SymbolicWeightedTransitionSystem [0] [1] [] [''(at l0)''] [''(at l1)'']
        [''(at l0)'', ''(at l1)''] [] [(''move'', addConst 2 1)] [''x0'', ''y0''] = Inr base
    \<and> sym_add_goal_states self = None
    \<and> get_tuple_from_state ex_pim
          [''(gripper free)'', ''(on b0 l0)'', ''(ready l0)'', ''(to-obj b0 l0)''] = Inr [0, 2, 3, 4]
    \<and> map (\<lambda>p. the (map_of ex_pim p))
          [''(gripper free)'', ''(on b0 l0)'', ''(ready l0)'', ''(to-obj b0 l0)''] = [4, 3, 0, 2]
    \<and> [0, 2, 3, 4] = sort [4, 3, 0, 2::int] \<and> sorted [0, 2, 3, 4::int]
    \<and> (\<exists>c. map_of (predicate_add_sym_map_curr self) [0, 2, 3, 4] = Some c
           \<and> sym_add_init_states self = Some c)
    \<and> sym_add_goal_states (lts st) = None
    \<and> sym_add_init_states (lts st) = sym_add_init_states self
    \<and> reduce_opt dd_or (map (map_of (predicate_add_sym_map_curr base)) [''(at l1)''])
         = Inr (sym_add_goal_states base)"
proof -
  obtain self where s: "ex_franka = Inr self"
    using not_isl_Inr [OF ex_franka_ok] by blast
  have "\<not> isl (create_weighted_transition_system_franka self [''b0''] ex_lbls True)"
    using ex_run_ok unfolding s by simp
  then obtain st where
    st: "create_weighted_transition_system_franka self [''b0''] ex_lbls True = Inr st"
    using not_isl_Inr by blast
  obtain base where b: "ex_base = Inr base"
    using not_isl_Inr [OF ex_base_ok] by blast
  note h = s [unfolded ex_franka_def]
  note hb = b [unfolded ex_base_def]
  note w = franka_goal_states_none [OF h, where boxes = "[''b0'']" and state_lbls = ex_lbls
      and add_exist_constr = True and curr_states' = "[0]" and next_states' = "[1]"
      and lbl_states' = "[]" and task_init' = "[''(at l0)'']" and task_goals' = "[''(at l1)'']"
      and task_facts' = "[''(at l0)'', ''(at l1)'']" and task_operators' = "[]"
      and weight_dict' = "[(''move'', addConst 2 1)]" and manager' = "[''x0'', ''y0'']"]
  from w have g: "sym_add_goal_states self = None" by (rule conjunct1)
  have t: "get_tuple_from_state ex_pim
          [''(gripper free)'', ''(on b0 l0)'', ''(ready l0)'', ''(to-obj b0 l0)''] = Inr [0, 2, 3, 4]"
    by code_simp
  have m: "map (\<lambda>p. the (map_of ex_pim p))
          [''(gripper free)'', ''(on b0 l0)'', ''(ready l0)'', ''(to-obj b0 l0)''] = [4, 3, 0, 2]"
    by code_simp
  have so: "[0, 2, 3, 4] = sort [4, 3, 0, 2::int]" "sorted [0, 2, 3, 4::int]" by simp_all
  from w obtain init_tuple c where
    i0: "get_tuple_from_state ex_pim
          [''(gripper free)'', ''(on b0 l0)'', ''(ready l0)'', ''(to-obj b0 l0)''] = Inr init_tuple"
      "map_of (predicate_add_sym_map_curr self) init_tuple = Some c"
      "sym_add_init_states self = Some c"
    by blast
  have "init_tuple = [0, 2, 3, 4]" using i0(1) t by simp
  then have i: "\<exists>c. map_of (predicate_add_sym_map_curr self) [0, 2, 3, 4] = Some c
           \<and> sym_add_init_states self = Some c"
    using i0(2,3) by blast
  from w st have l: "sym_add_goal_states (lts st) = None
      \<and> sym_add_init_states (lts st) = sym_add_init_states self" by blast
  from w hb have r: "reduce_opt dd_or (map (map_of (predicate_add_sym_map_curr base)) [''(at l1)''])
         = Inr (sym_add_goal_states base)" by blast
  show ?thesis
    by (intro exI [of _ self] exI [of _ st] exI [of _ base] conjI h st hb g t m so i
          l [THEN conjunct1] l [THEN conjunct2] r)
qed

section \<open>Direct mode: the relation of one action\<close>

text \<open>
  The conjunction and the disjunction of a list of diagrams as the spec words them, with
  the identity (true, respectively false) for the empty list, and the diagrams that a map
  of the encoder holds for a list of facts.
\<close>

definition conj_dd :: "nat \<Rightarrow> dd list \<Rightarrow> dd" where
  "conj_dd N ds = (case ds of [] \<Rightarrow> addOne N | d # r \<Rightarrow> foldl dd_and d r)"

definition disj_dd :: "nat \<Rightarrow> dd list \<Rightarrow> dd" where
  "disj_dd N ds = (case ds of [] \<Rightarrow> addZero N | d # r \<Rightarrow> foldl dd_or d r)"

definition fact_cubes :: "('k \<times> dd) list \<Rightarrow> 'k list \<Rightarrow> dd list" where
  "fact_cubes m fs = map (\<lambda>f. the (map_of m f)) fs"

text \<open>
  The relation of an action as the spec states it: preconditions over the current
  variables, add effects over the next variables, no delete effect over the next
  variables, tagged with the weight.
\<close>

definition spec_action_relation :: "string sym_ts \<Rightarrow> operator \<Rightarrow> dd \<Rightarrow> dd" where
  "spec_action_relation self op w =
     (let N = length (manager self) in
      dd_and (dd_and (dd_and
        (conj_dd N (fact_cubes (predicate_add_sym_map_curr self) (preconditions op)))
        (conj_dd N (fact_cubes (predicate_add_sym_map_nxt self) (add_effects op))))
        (dd_not (disj_dd N (fact_cubes (predicate_add_sym_map_nxt self) (del_effects op)))))
        w)"

text \<open>What the source computes for the delete effects: their conjunction, zero when there are none.\<close>

definition del_sym_dd :: "nat \<Rightarrow> dd list \<Rightarrow> dd" where
  "del_sym_dd N ds = (case ds of [] \<Rightarrow> addZero N | d # r \<Rightarrow> foldl dd_and d r)"

lemma reduce_opt_Some:
  "reduce_opt f (Some c # map Some cs) = Inr (Some (foldl f c cs))"
  by (induction cs arbitrary: c) (simp_all add: py_binop_def)

lemma map_map_of_Some:
  "set fs \<subseteq> fst ` set m \<Longrightarrow> map (map_of m) fs = map Some (fact_cubes m fs)"
proof (induction fs)
  case Nil
  then show ?case by (simp add: fact_cubes_def)
next
  case (Cons f fs)
  then have "f \<in> fst ` set m" by simp
  then obtain c where "map_of m f = Some c"
    by (metis domD dom_map_of_conv_image_fst)
  then show ?case using Cons by (simp add: fact_cubes_def)
qed

lemma sym_of_list_conj:
  assumes "set fs \<subseteq> fst ` set m"
  shows "sym_of_list (addOne N) (map (map_of m) fs) = Inr (Some (conj_dd N (fact_cubes m fs)))"
proof (cases "fact_cubes m fs")
  case Nil
  then show ?thesis
    using map_map_of_Some [OF assms] by (simp add: sym_of_list_def conj_dd_def)
next
  case (Cons c cs)
  then show ?thesis
    using map_map_of_Some [OF assms] reduce_opt_Some [of dd_and c cs]
    by (simp add: sym_of_list_def conj_dd_def)
qed

lemma sym_of_list_del:
  assumes "set fs \<subseteq> fst ` set m"
  shows "sym_of_list (addZero N) (map (map_of m) fs) = Inr (Some (del_sym_dd N (fact_cubes m fs)))"
proof (cases "fact_cubes m fs")
  case Nil
  then show ?thesis
    using map_map_of_Some [OF assms] by (simp add: sym_of_list_def del_sym_dd_def)
next
  case (Cons c cs)
  then show ?thesis
    using map_map_of_Some [OF assms] reduce_opt_Some [of dd_and c cs]
    by (simp add: sym_of_list_def del_sym_dd_def)
qed

lemma build_actions_value:
  assumes "set (preconditions op) \<subseteq> fst ` set (predicate_add_sym_map_curr self)"
    and "set (add_effects op) \<subseteq> fst ` set (predicate_add_sym_map_nxt self)"
    and "set (del_effects op) \<subseteq> fst ` set (predicate_add_sym_map_nxt self)"
    and "action_of_name (name op) = Inr a"
    and "map_of (weight_dict self) a = Some w"
    and "map_of (tr_action_idx_map self) a = Some idx"
    and "idx < length (sym_tr_actions self)"
  shows "build_actions_tr_func_weighted self op =
     Inr (self\<lparr>sym_tr_actions := (sym_tr_actions self)
            [idx := dd_or (sym_tr_actions self ! idx)
               (dd_and (dd_and (dd_and
                  (flip_zero (conj_dd (length (manager self))
                     (fact_cubes (predicate_add_sym_map_curr self) (preconditions op))))
                  (flip_zero (conj_dd (length (manager self))
                     (fact_cubes (predicate_add_sym_map_nxt self) (add_effects op)))))
                  (dd_not (del_sym_dd (length (manager self))
                     (fact_cubes (predicate_add_sym_map_nxt self) (del_effects op)))))
                  w)]\<rparr>, a)"
proof -
  have "a \<in> fst ` set (weight_dict self)"
    using assms(5) by (metis domI dom_map_of_conv_image_fst)
  then show ?thesis
    by (intro build_actions_InrI sym_of_list_conj sym_of_list_del assms)
qed

lemma length_addConst_pos: "0 < length (addConst N c)"
  by (simp add: addConst_def length_product10)

lemma not_isZero_addOne: "\<not> isZero (addOne N)"
  by (simp add: addOne_tab isZero_tab) (metis Ex_list_of_length)

lemma flip_zero_addOne: "flip_zero (addOne N) = addOne N"
  by (simp add: flip_zero_def not_isZero_addOne)

lemma dd_not_addZero: "dd_not (addZero N) = addOne N"
  by (simp add: addZero_tab addOne_tab dd_not_tab)

lemma del_sym_dd_disj: "length ds \<le> 1 \<Longrightarrow> del_sym_dd N ds = disj_dd N ds"
  by (cases ds) (simp_all add: del_sym_dd_def disj_dd_def)

definition ex_move :: operator where
  "ex_move = \<lparr>name = ''(move l0 l1)'', preconditions = [''(at l0)''],
              add_effects = [''(at l1)''], del_effects = [''(at l0)'']\<rparr>"

definition ex_drop :: operator where
  "ex_drop = \<lparr>name = ''(drop l0)'', preconditions = [''(at l0)''],
              add_effects = [], del_effects = [''(at l0)'', ''(at l1)'']\<rparr>"

definition ex_idle :: operator where
  "ex_idle = \<lparr>name = ''(move l0 l0)'', preconditions = [], add_effects = [], del_effects = []\<rparr>"

definition ex_dts :: "string sym_ts" where
  "ex_dts = projr (SymbolicWeightedTransitionSystem [0] [1] [] [''(at l0)''] [''(at l1)'']
     [''(at l0)'', ''(at l1)''] [ex_move, ex_drop, ex_idle]
     [(''move'', addConst 2 1), (''drop'', addConst 2 3)] [''x0'', ''y0''])"

text \<open>
  The relation for at most one delete effect. For such an action, whose facts are
  all encoded and whose name is a key of the weight table, the diagram disjoined into the
  entry of the action is the conjunction of the precondition cubes over the current
  variables, the add-effect cubes over the next variables, the negation of the
  disjunction of the delete-effect cubes and the weight, where a conjunction of
  precondition (or add-effect) cubes that is the false diagram is replaced by the true
  diagram. When neither conjunction is false this is the relation the spec states.
\<close>

theorem action_relation_disjunct:
  fixes self :: "string sym_ts" and op :: operator
  defines "N \<equiv> length (manager self)"
    and "P \<equiv> conj_dd (length (manager self)) (fact_cubes (predicate_add_sym_map_curr self) (preconditions op))"
    and "A \<equiv> conj_dd (length (manager self)) (fact_cubes (predicate_add_sym_map_nxt self) (add_effects op))"
    and "D \<equiv> disj_dd (length (manager self)) (fact_cubes (predicate_add_sym_map_nxt self) (del_effects op))"
  assumes "set (preconditions op) \<subseteq> fst ` set (predicate_add_sym_map_curr self)"
    and "set (add_effects op) \<subseteq> fst ` set (predicate_add_sym_map_nxt self)"
    and "set (del_effects op) \<subseteq> fst ` set (predicate_add_sym_map_nxt self)"
    and "action_of_name (name op) = Inr a"
    and "map_of (weight_dict self) a = Some w"
    and "map_of (tr_action_idx_map self) a = Some idx"
    and "idx < length (sym_tr_actions self)"
    and "length (del_effects op) \<le> 1"
  shows "build_actions_tr_func_weighted self op =
           Inr (self\<lparr>sym_tr_actions := (sym_tr_actions self)
                  [idx := dd_or (sym_tr_actions self ! idx)
                     (dd_and (dd_and (dd_and (flip_zero P) (flip_zero A)) (dd_not D)) w)]\<rparr>, a)
       \<and> (\<not> isZero P \<and> \<not> isZero A \<longrightarrow>
            dd_and (dd_and (dd_and (flip_zero P) (flip_zero A)) (dd_not D)) w
              = spec_action_relation self op w)"
proof -
  have len: "length (fact_cubes (predicate_add_sym_map_nxt self) (del_effects op)) \<le> 1"
    using assms(12) by (simp add: fact_cubes_def)
  have "build_actions_tr_func_weighted self op =
           Inr (self\<lparr>sym_tr_actions := (sym_tr_actions self)
                  [idx := dd_or (sym_tr_actions self ! idx)
                     (dd_and (dd_and (dd_and (flip_zero P) (flip_zero A)) (dd_not D)) w)]\<rparr>, a)"
    using build_actions_value [OF assms(5-11)] del_sym_dd_disj [OF len]
    by (simp add: P_def A_def D_def)
  moreover have "\<not> isZero P \<and> \<not> isZero A \<longrightarrow>
            dd_and (dd_and (dd_and (flip_zero P) (flip_zero A)) (dd_not D)) w
              = spec_action_relation self op w"
    by (simp add: spec_action_relation_def Let_def flip_zero_def P_def A_def D_def)
  ultimately show ?thesis by blast
qed

lemma ex_dts_facts:
  "set (preconditions ex_move) \<subseteq> fst ` set (predicate_add_sym_map_curr ex_dts)"
  "set (add_effects ex_move) \<subseteq> fst ` set (predicate_add_sym_map_nxt ex_dts)"
  "set (del_effects ex_move) \<subseteq> fst ` set (predicate_add_sym_map_nxt ex_dts)"
  "action_of_name (name ex_move) = Inr ''move''"
  "map_of (weight_dict ex_dts) ''move'' = Some (addConst 2 1)"
  "map_of (tr_action_idx_map ex_dts) ''move'' = Some 0"
  "0 < length (sym_tr_actions ex_dts)"
  "length (del_effects ex_move) \<le> 1"
  by code_simp+

theorem action_relation_disjunct_witness:
  "set (preconditions ex_move) \<subseteq> fst ` set (predicate_add_sym_map_curr ex_dts)
   \<and> set (add_effects ex_move) \<subseteq> fst ` set (predicate_add_sym_map_nxt ex_dts)
   \<and> set (del_effects ex_move) \<subseteq> fst ` set (predicate_add_sym_map_nxt ex_dts)
   \<and> action_of_name (name ex_move) = Inr ''move''
   \<and> map_of (weight_dict ex_dts) ''move'' = Some (addConst 2 1)
   \<and> map_of (tr_action_idx_map ex_dts) ''move'' = Some 0
   \<and> 0 < length (sym_tr_actions ex_dts)
   \<and> length (del_effects ex_move) \<le> 1
   \<and> \<not> isZero (conj_dd (length (manager ex_dts))
            (fact_cubes (predicate_add_sym_map_curr ex_dts) (preconditions ex_move)))
   \<and> \<not> isZero (conj_dd (length (manager ex_dts))
            (fact_cubes (predicate_add_sym_map_nxt ex_dts) (add_effects ex_move)))
   \<and> build_actions_tr_func_weighted ex_dts ex_move =
       Inr (ex_dts\<lparr>sym_tr_actions := (sym_tr_actions ex_dts)
              [0 := dd_or (sym_tr_actions ex_dts ! 0)
                 (spec_action_relation ex_dts ex_move (addConst 2 1))]\<rparr>, ''move'')"
proof -
  have p: "\<not> isZero (conj_dd (length (manager ex_dts))
            (fact_cubes (predicate_add_sym_map_curr ex_dts) (preconditions ex_move)))"
    by code_simp
  have a: "\<not> isZero (conj_dd (length (manager ex_dts))
            (fact_cubes (predicate_add_sym_map_nxt ex_dts) (add_effects ex_move)))"
    by code_simp
  have "build_actions_tr_func_weighted ex_dts ex_move =
       Inr (ex_dts\<lparr>sym_tr_actions := (sym_tr_actions ex_dts)
              [0 := dd_or (sym_tr_actions ex_dts ! 0)
                 (spec_action_relation ex_dts ex_move (addConst 2 1))]\<rparr>, ''move'')"
    using action_relation_disjunct [OF ex_dts_facts] p a by simp
  then show ?thesis using ex_dts_facts p a by blast
qed

text \<open>
  C1. The action \<^verbatim>\<open>(drop l0)\<close> has the precondition \<open>(at l0)\<close>, no add effect and the two
  delete effects \<open>(at l0)\<close> and \<open>(at l1)\<close>. The relation of the claim negates the
  disjunction of the two delete-effect cubes, which is the true diagram here, so the
  relation of the claim is the false diagram. \<open>build_actions_tr_func_weighted\<close> negates the
  conjunction of the two cubes (\<^verbatim>\<open>reduce\<close> with \<^verbatim>\<open>&\<close>), which is the false diagram, and
  disjoins into the entry of the action the weight 3 on every assignment whose current
  state is \<open>(at l0)\<close>, whatever the next state: no delete effect is excluded. The
  incremental construction, in \<open>next_tuple_of\<close>, removes every delete effect.
\<close>

theorem action_relation_two_deletes:
  "build_actions_tr_func_weighted ex_dts ex_drop
     = Inr (ex_dts\<lparr>sym_tr_actions := (sym_tr_actions ex_dts)[1 := [3, 3, 0, 0]]\<rparr>, ''drop'')
   \<and> sym_tr_actions ex_dts ! 1 = [0, 0, 0, 0]
   \<and> map_of (weight_dict ex_dts) ''drop'' = Some (addConst 2 3)
   \<and> fact_cubes (predicate_add_sym_map_curr ex_dts) (preconditions ex_drop) = [[1, 1, 0, 0]]
   \<and> fact_cubes (predicate_add_sym_map_nxt ex_dts) (add_effects ex_drop) = []
   \<and> fact_cubes (predicate_add_sym_map_nxt ex_dts) (del_effects ex_drop)
       = [[1, 0, 1, 0], [0, 1, 0, 1]]
   \<and> del_sym_dd 2 (fact_cubes (predicate_add_sym_map_nxt ex_dts) (del_effects ex_drop))
       = [0, 0, 0, 0]
   \<and> disj_dd 2 (fact_cubes (predicate_add_sym_map_nxt ex_dts) (del_effects ex_drop))
       = [1, 1, 1, 1]
   \<and> spec_action_relation ex_dts ex_drop (addConst 2 3) = [0, 0, 0, 0]
   \<and> dd_or (sym_tr_actions ex_dts ! 1) (spec_action_relation ex_dts ex_drop (addConst 2 3))
       = [0, 0, 0, 0]
   \<and> next_tuple_of [0, 1] [0, 1] [] = []"
  by code_simp

lemma isZero_addConst: "isZero (addConst N c) \<longleftrightarrow> c = 0"
  by (simp add: addConst_tab isZero_tab) (metis Ex_list_of_length)

lemma dd_and_addOne_addConst: "dd_and (dd_and (dd_and (addOne N) (addOne N)) (addOne N)) (addConst N c) = addConst N c"
  by (simp add: addOne_tab addConst_tab dd_and_tab)

text \<open>
  C9. In \<open>build_actions_tr_func_weighted\<close> the three components of the conjunct are the
  precondition diagram, the add-effect diagram and the complement of the delete-effect
  diagram. For an empty precondition set, an empty add-effect set or an empty delete-effect
  set the component is the true diagram, which is not the false diagram; when all three
  sets are empty the conjunct is the weight terminal itself, false only for the weight 0.
\<close>

theorem empty_sets_contribute_true:
  fixes self :: "string sym_ts" and op :: operator
  defines "pre_sym \<equiv> flip_zero (conj_dd (length (manager self))
                         (fact_cubes (predicate_add_sym_map_curr self) (preconditions op)))"
    and "add_sym \<equiv> flip_zero (conj_dd (length (manager self))
                         (fact_cubes (predicate_add_sym_map_nxt self) (add_effects op)))"
    and "not_del_sym \<equiv> dd_not (del_sym_dd (length (manager self))
                         (fact_cubes (predicate_add_sym_map_nxt self) (del_effects op)))"
  assumes "set (preconditions op) \<subseteq> fst ` set (predicate_add_sym_map_curr self)"
    and "set (add_effects op) \<subseteq> fst ` set (predicate_add_sym_map_nxt self)"
    and "set (del_effects op) \<subseteq> fst ` set (predicate_add_sym_map_nxt self)"
    and "action_of_name (name op) = Inr a"
    and "map_of (weight_dict self) a = Some w"
    and "map_of (tr_action_idx_map self) a = Some idx"
    and "idx < length (sym_tr_actions self)"
  shows "build_actions_tr_func_weighted self op =
           Inr (self\<lparr>sym_tr_actions := (sym_tr_actions self)
                  [idx := dd_or (sym_tr_actions self ! idx)
                     (dd_and (dd_and (dd_and pre_sym add_sym) not_del_sym) w)]\<rparr>, a)
       \<and> (preconditions op = [] \<longrightarrow> pre_sym = addOne (length (manager self)))
       \<and> (add_effects op = [] \<longrightarrow> add_sym = addOne (length (manager self)))
       \<and> (del_effects op = [] \<longrightarrow> not_del_sym = addOne (length (manager self)))
       \<and> \<not> isZero (addOne (length (manager self)))
       \<and> (preconditions op = [] \<and> add_effects op = [] \<and> del_effects op = [] \<longrightarrow>
            (\<forall>c. w = addConst (length (manager self)) c \<longrightarrow>
               dd_and (dd_and (dd_and pre_sym add_sym) not_del_sym) w = w
             \<and> (isZero (dd_and (dd_and (dd_and pre_sym add_sym) not_del_sym) w) \<longleftrightarrow> c = 0)))"
proof -
  have run: "build_actions_tr_func_weighted self op =
           Inr (self\<lparr>sym_tr_actions := (sym_tr_actions self)
                  [idx := dd_or (sym_tr_actions self ! idx)
                     (dd_and (dd_and (dd_and pre_sym add_sym) not_del_sym) w)]\<rparr>, a)"
    using build_actions_value [OF assms(4-10)] by (simp add: pre_sym_def add_sym_def not_del_sym_def)
  have p: "preconditions op = [] \<longrightarrow> pre_sym = addOne (length (manager self))"
    by (simp add: pre_sym_def fact_cubes_def conj_dd_def flip_zero_addOne)
  have a: "add_effects op = [] \<longrightarrow> add_sym = addOne (length (manager self))"
    by (simp add: add_sym_def fact_cubes_def conj_dd_def flip_zero_addOne)
  have d: "del_effects op = [] \<longrightarrow> not_del_sym = addOne (length (manager self))"
    by (simp add: not_del_sym_def fact_cubes_def del_sym_dd_def dd_not_addZero)
  have all: "preconditions op = [] \<and> add_effects op = [] \<and> del_effects op = [] \<longrightarrow>
            (\<forall>c. w = addConst (length (manager self)) c \<longrightarrow>
               dd_and (dd_and (dd_and pre_sym add_sym) not_del_sym) w = w
             \<and> (isZero (dd_and (dd_and (dd_and pre_sym add_sym) not_del_sym) w) \<longleftrightarrow> c = 0))"
    using p a d by (auto simp: dd_and_addOne_addConst isZero_addConst)
  show ?thesis using run p a d all not_isZero_addOne by blast
qed

lemma ex_idle_facts:
  "set (preconditions ex_idle) \<subseteq> fst ` set (predicate_add_sym_map_curr ex_dts)"
  "set (add_effects ex_idle) \<subseteq> fst ` set (predicate_add_sym_map_nxt ex_dts)"
  "set (del_effects ex_idle) \<subseteq> fst ` set (predicate_add_sym_map_nxt ex_dts)"
  "action_of_name (name ex_idle) = Inr ''move''"
  "map_of (weight_dict ex_dts) ''move'' = Some (addConst 2 1)"
  "map_of (tr_action_idx_map ex_dts) ''move'' = Some 0"
  "0 < length (sym_tr_actions ex_dts)"
  by code_simp+

theorem empty_sets_contribute_true_witness:
  "set (preconditions ex_idle) \<subseteq> fst ` set (predicate_add_sym_map_curr ex_dts)
   \<and> set (add_effects ex_idle) \<subseteq> fst ` set (predicate_add_sym_map_nxt ex_dts)
   \<and> set (del_effects ex_idle) \<subseteq> fst ` set (predicate_add_sym_map_nxt ex_dts)
   \<and> action_of_name (name ex_idle) = Inr ''move''
   \<and> map_of (weight_dict ex_dts) ''move'' = Some (addConst 2 1)
   \<and> map_of (tr_action_idx_map ex_dts) ''move'' = Some 0
   \<and> 0 < length (sym_tr_actions ex_dts)
   \<and> preconditions ex_idle = [] \<and> add_effects ex_idle = [] \<and> del_effects ex_idle = []
   \<and> addConst 2 1 = addConst (length (manager ex_dts)) 1
   \<and> flip_zero (conj_dd (length (manager ex_dts))
        (fact_cubes (predicate_add_sym_map_curr ex_dts) (preconditions ex_idle)))
       = addOne (length (manager ex_dts))
   \<and> flip_zero (conj_dd (length (manager ex_dts))
        (fact_cubes (predicate_add_sym_map_nxt ex_dts) (add_effects ex_idle)))
       = addOne (length (manager ex_dts))
   \<and> dd_not (del_sym_dd (length (manager ex_dts))
        (fact_cubes (predicate_add_sym_map_nxt ex_dts) (del_effects ex_idle)))
       = addOne (length (manager ex_dts))
   \<and> \<not> isl (build_actions_tr_func_weighted ex_dts ex_idle)"
proof -
  have e: "preconditions ex_idle = []" "add_effects ex_idle = []" "del_effects ex_idle = []"
    by (simp_all add: ex_idle_def)
  have m: "addConst 2 1 = addConst (length (manager ex_dts)) 1" by code_simp
  note w = empty_sets_contribute_true [OF ex_idle_facts]
  from w have r: "\<not> isl (build_actions_tr_func_weighted ex_dts ex_idle)" by simp
  from w e(1) have p: "flip_zero (conj_dd (length (manager ex_dts))
        (fact_cubes (predicate_add_sym_map_curr ex_dts) (preconditions ex_idle)))
       = addOne (length (manager ex_dts))" by blast
  from w e(2) have a: "flip_zero (conj_dd (length (manager ex_dts))
        (fact_cubes (predicate_add_sym_map_nxt ex_dts) (add_effects ex_idle)))
       = addOne (length (manager ex_dts))" by blast
  from w e(3) have d: "dd_not (del_sym_dd (length (manager ex_dts))
        (fact_cubes (predicate_add_sym_map_nxt ex_dts) (del_effects ex_idle)))
       = addOne (length (manager ex_dts))" by blast
  show ?thesis using ex_idle_facts e m p a d r by blast
qed

section \<open>The names of transfer and release actions\<close>

text \<open>The decimal numeral of a number: its digits, and the number read back from them.\<close>

lemma digit_char_digit: "d < 10 \<Longrightarrow> is_digit (digit_char d)"
proof -
  have "\<forall>d \<in> set [0..<10]. is_digit (digit_char d)" by code_simp
  then show "d < 10 \<Longrightarrow> is_digit (digit_char d)" by simp
qed

lemma digit_val_digit_char: "d < 10 \<Longrightarrow> digit_val (digit_char d) = d"
proof -
  have "\<forall>d \<in> set [0..<10]. digit_val (digit_char d) = d" by code_simp
  then show "d < 10 \<Longrightarrow> digit_val (digit_char d) = d" by simp
qed

lemma show_nat_digits: "\<forall>c \<in> set (show_nat n). is_digit c"
proof (induction n rule: show_nat.induct)
  case (1 n)
  show ?case
  proof (cases "n < 10")
    case True
    then show ?thesis by (simp add: show_nat.simps [of n] digit_char_digit)
  next
    case False
    then show ?thesis
      using 1 by (simp add: show_nat.simps [of n] digit_char_digit)
  qed
qed

lemma show_nat_not_Nil: "show_nat n \<noteq> []"
  by (simp add: show_nat.simps [of n])

lemma int_of_digits_snoc: "int_of_digits (s @ [c]) = 10 * int_of_digits s + digit_val c"
  by (simp add: int_of_digits_def)

lemma int_of_digits_show_nat: "int_of_digits (show_nat n) = n"
proof (induction n rule: show_nat.induct)
  case (1 n)
  show ?case
  proof (cases "n < 10")
    case True
    then show ?thesis
      by (simp add: show_nat.simps [of n] int_of_digits_def digit_val_digit_char)
  next
    case False
    then have "int_of_digits (show_nat (n div 10)) = n div 10" using 1 by simp
    then show ?thesis
      using False
      by (simp add: show_nat.simps [of n] int_of_digits_snoc digit_val_digit_char)
  qed
qed

lemma takeWhile_show_nat:
  "\<not> is_digit d \<Longrightarrow> takeWhile is_digit (show_nat n @ d # rest) = show_nat n"
  using show_nat_digits [of n] by (simp add: takeWhile_append2)

lemma dropWhile_show_nat:
  "\<not> is_digit d \<Longrightarrow> dropWhile is_digit (show_nat n @ d # rest) = d # rest"
  using show_nat_digits [of n] by (simp add: dropWhile_append2)

lemma digits_of_word: "\<not> is_digit c \<Longrightarrow> re_search_digits (c # show_nat n) = Some (show_nat n)"
proof -
  assume c: "\<not> is_digit c"
  obtain a r where s: "show_nat n = a # r" using show_nat_not_Nil [of n] by (cases "show_nat n") auto
  have a: "is_digit a" using show_nat_digits [of n] s by simp
  have d: "dropWhile (\<lambda>c. \<not> is_digit c) (c # show_nat n) = show_nat n"
    using a c by (simp add: s)
  have t: "takeWhile is_digit (show_nat n) = show_nat n"
    using show_nat_digits [of n] by (simp add: takeWhile_eq_all_conv)
  show ?thesis
    unfolding re_search_digits_def Let_def d t using show_nat_not_Nil [of n] by simp
qed

text \<open>Digits are not of the classes of the two patterns, and begin neither action word.\<close>

lemma digit_classes:
  assumes "is_digit c"
  shows "\<not> loc_class c" "\<not> box_class c" "c \<noteq> CHR ''t''" "c \<noteq> CHR ''r''"
  using assms by (auto simp: is_digit_def loc_class_def box_class_def)

lemma re_search_skip:
  "\<forall>c \<in> set ds. \<not> cls c \<Longrightarrow> re_search cls (ds @ rest) = re_search cls rest"
  by (induction ds) simp_all

lemma re_findall_skip:
  "\<forall>c \<in> set ds. \<not> cls c \<Longrightarrow> re_findall cls (ds @ rest) = re_findall cls rest"
  by (induction ds) simp_all

lemma re_search_hit:
  "cls c \<Longrightarrow> \<not> is_digit d \<Longrightarrow> re_search cls (c # show_nat n @ d # rest) = Some (c # show_nat n)"
  by (simp add: takeWhile_show_nat show_nat_not_Nil)

lemma re_findall_hit:
  "cls c \<Longrightarrow> \<not> is_digit d \<Longrightarrow>
   re_findall cls (c # show_nat n @ d # rest) = (c # show_nat n) # re_findall cls (d # rest)"
  by (simp add: takeWhile_show_nat dropWhile_show_nat show_nat_not_Nil)

lemma re_skip1:
  "\<not> cls c \<Longrightarrow> re_search cls (c # cs) = re_search cls cs"
  "\<not> cls c \<Longrightarrow> re_findall cls (c # cs) = re_findall cls cs"
  by simp_all

lemma re_search_no_digit:
  "\<not> is_digit d \<Longrightarrow> re_search cls (c # d # cs) = re_search cls (d # cs)"
  by simp

lemma in_str_skip:
  "\<forall>c \<in> set ds. c \<noteq> a \<Longrightarrow> in_str (a # sub) (ds @ rest) = in_str (a # sub) rest"
  by (induction ds) auto

lemma in_str_skip1: "c \<noteq> a \<Longrightarrow> in_str (a # sub) (c # cs) = in_str (a # sub) cs"
  by auto

lemma show_nat_skips:
  "re_search loc_class (show_nat n @ rest) = re_search loc_class rest"
  "re_search box_class (show_nat n @ rest) = re_search box_class rest"
  "re_findall loc_class (show_nat n @ rest) = re_findall loc_class rest"
  "in_str (CHR ''t'' # sub) (show_nat n @ rest) = in_str (CHR ''t'' # sub) rest"
  using show_nat_digits [of n] digit_classes
  by (auto intro!: re_search_skip re_findall_skip in_str_skip)

text \<open>
  The names of the grounded actions: \<^verbatim>\<open>(transfer b<i> l<j> l<k>)\<close> moves box \<open>i\<close> from
  location \<open>j\<close> to location \<open>k\<close>, \<^verbatim>\<open>(release b<i> l<k>)\<close> drops box \<open>i\<close> at location \<open>k\<close>.
\<close>

definition transfer_name :: "nat \<Rightarrow> nat \<Rightarrow> nat \<Rightarrow> string" where
  "transfer_name i j k =
     ''(transfer b'' @ show_nat i @ '' l'' @ show_nat j @ '' l'' @ show_nat k @ '')''"

definition release_name :: "nat \<Rightarrow> nat \<Rightarrow> string" where
  "release_name i k = ''(release b'' @ show_nat i @ '' l'' @ show_nat k @ '')''"

lemma not_digit_chars: "\<not> is_digit CHR '' ''" "\<not> is_digit CHR '')''" "\<not> is_digit CHR ''b''"
  by (simp_all add: is_digit_def)

lemma transfer_box: "re_search box_class (transfer_name i j k) = Some (CHR ''b'' # show_nat i)"
proof -
  have b: "box_class CHR ''b''" by (simp add: box_class_def)
  have "re_search box_class (transfer_name i j k)
      = re_search box_class (CHR ''b'' # show_nat i @ CHR '' '' # (''l'' @ show_nat j @ '' l'' @ show_nat k @ '')''))"
    by (simp add: transfer_name_def box_class_def)
  also have "\<dots> = Some (CHR ''b'' # show_nat i)"
    by (rule re_search_hit [where cls = box_class and c = "CHR ''b''", OF b not_digit_chars(1)])
  finally show ?thesis .
qed

lemma transfer_locs:
  "re_findall loc_class (transfer_name i j k) = [CHR ''l'' # show_nat j, CHR ''l'' # show_nat k]"
proof -
  have l: "loc_class CHR ''l''" by (simp add: loc_class_def)
  have "re_findall loc_class (transfer_name i j k)
      = re_findall loc_class (show_nat i @ CHR '' '' # CHR ''l'' # show_nat j @ CHR '' '' # (''l'' @ show_nat k @ '')''))"
    by (simp add: transfer_name_def loc_class_def)
  also have "\<dots> = re_findall loc_class (CHR ''l'' # show_nat j @ CHR '' '' # (''l'' @ show_nat k @ '')''))"
    by (simp add: show_nat_skips loc_class_def)
  also have "\<dots> = (CHR ''l'' # show_nat j) # re_findall loc_class (CHR '' '' # (''l'' @ show_nat k @ '')''))"
    by (rule re_findall_hit [where cls = loc_class and c = "CHR ''l''", OF l not_digit_chars(1)])
  also have "re_findall loc_class (CHR '' '' # (''l'' @ show_nat k @ '')''))
      = re_findall loc_class (CHR ''l'' # show_nat k @ CHR '')'' # [])"
    by (simp add: loc_class_def)
  also have "\<dots> = (CHR ''l'' # show_nat k) # re_findall loc_class (CHR '')'' # [])"
    by (rule re_findall_hit [where cls = loc_class and c = "CHR ''l''", OF l not_digit_chars(2)])
  also have "re_findall loc_class (CHR '')'' # []) = []" by (simp add: loc_class_def)
  finally show ?thesis .
qed

lemma release_box: "re_search box_class (release_name i k) = Some (CHR ''b'' # show_nat i)"
proof -
  have b: "box_class CHR ''b''" by (simp add: box_class_def)
  have "re_search box_class (release_name i k)
      = re_search box_class (CHR ''b'' # show_nat i @ CHR '' '' # (''l'' @ show_nat k @ '')''))"
    by (simp add: release_name_def box_class_def)
  also have "\<dots> = Some (CHR ''b'' # show_nat i)"
    by (rule re_search_hit [where cls = box_class and c = "CHR ''b''", OF b not_digit_chars(1)])
  finally show ?thesis .
qed

lemma release_loc: "re_search loc_class (release_name i k) = Some (CHR ''l'' # show_nat k)"
proof -
  have l: "loc_class CHR ''l''" by (simp add: loc_class_def)
  have "re_search loc_class (release_name i k)
      = re_search loc_class (show_nat i @ CHR '' '' # CHR ''l'' # show_nat k @ CHR '')'' # [])"
    by (simp add: release_name_def loc_class_def is_digit_def)
  also have "\<dots> = re_search loc_class (CHR ''l'' # show_nat k @ CHR '')'' # [])"
    by (simp add: show_nat_skips loc_class_def)
  also have "\<dots> = Some (CHR ''l'' # show_nat k)"
    by (rule re_search_hit [where cls = loc_class and c = "CHR ''l''", OF l not_digit_chars(2)])
  finally show ?thesis .
qed

lemma transfer_in_str: "in_str ''transfer'' (transfer_name i j k)"
  by (simp add: transfer_name_def)

lemma release_in_str:
  "\<not> in_str ''transfer'' (release_name i k)" "in_str ''release'' (release_name i k)"
  by (simp_all add: release_name_def show_nat_skips)

text \<open>The box and the destination that \<open>_check_exist_constraint\<close> reads from the name.\<close>

lemma transfer_target:
  "exist_constraint_target (transfer_name i j k) = Inr (i, ''l'' @ show_nat k)"
  by (simp add: exist_constraint_target_def transfer_in_str get_multiple_box_location_def
        transfer_box transfer_locs digits_of_word [OF not_digit_chars(3)] int_of_digits_show_nat
        Let_def)

lemma release_target:
  "exist_constraint_target (release_name i k) = Inr (i, ''l'' @ show_nat k)"
  by (simp add: exist_constraint_target_def release_in_str get_box_location_def
        release_box release_loc digits_of_word [OF not_digit_chars(3)] int_of_digits_show_nat
        Let_def)

section \<open>The mutual-exclusion check of transfer and release\<close>

text \<open>What \<open>action_valid_pre\<close> has computed when it lets an action through.\<close>

lemma action_valid_pre_SomeE:
  assumes "action_valid_pre boxes add_exist_constr s action vpl st = Inr (vpl', Some v)"
  obtains pre_tuple necc_robot_conf robot_conf world_conf where
    "get_tuple_from_state (pred_int_map (lts st)) (preconditions action) = Inr pre_tuple"
    "get_conds_from_state (pred_int_map (lts st)) pre_tuple False True = Inr necc_robot_conf"
    "set pre_tuple \<subseteq> set s"
    "get_conds_from_state (pred_int_map (lts st)) s False True = Inr robot_conf"
    "get_conds_from_state (pred_int_map (lts st)) s True False = Inr world_conf"
    "v = sort (filter (\<lambda>i. i \<in> set necc_robot_conf) (remdups robot_conf) @ world_conf)"
    "v = s \<longrightarrow> vpl' = vpl"
    "v \<noteq> s \<longrightarrow> (\<exists>c. map_of (predicate_add_sym_map_curr (lts st)) v = Some c
                    \<and> isZero (dd_and c (closed_dd st)) \<and> vpl' = vpl @ [c])"
    "add_exist_constr \<and> (in_str ''transfer'' (name action) \<or> in_str ''release'' (name action))
       \<longrightarrow> check_exist_constraint (pred_int_map (lts st)) boxes v (name action) = Inr True"
proof -
  let ?pim = "pred_int_map (lts st)"
  note d = action_valid_pre_def Let_def
  obtain pre_tuple where 1: "get_tuple_from_state ?pim (preconditions action) = Inr pre_tuple"
    using assms by (cases "get_tuple_from_state ?pim (preconditions action)") (simp_all add: d)
  obtain necc where 2: "get_conds_from_state ?pim pre_tuple False True = Inr necc"
    using assms 1 by (cases "get_conds_from_state ?pim pre_tuple False True") (simp_all add: d)
  have 3: "set pre_tuple \<subseteq> set s"
    using assms 1 2 by (cases "set pre_tuple \<subseteq> set s") (simp_all add: d)
  obtain rc where 4: "get_conds_from_state ?pim s False True = Inr rc"
    using assms 1 2 3 by (cases "get_conds_from_state ?pim s False True") (simp_all add: d)
  obtain wc where 5: "get_conds_from_state ?pim s True False = Inr wc"
    using assms 1 2 3 4 by (cases "get_conds_from_state ?pim s True False") (simp_all add: d)
  let ?v = "sort (filter (\<lambda>i. i \<in> set necc) (remdups rc) @ wc)"
  let ?chk = "if add_exist_constr \<and> (in_str ''transfer'' (name action) \<or> in_str ''release'' (name action))
              then check_exist_constraint ?pim boxes ?v (name action) else Inr True"
  show ?thesis
  proof (cases "?v = s")
    case True
    have run: "bnd ?chk (\<lambda>action_feas. if \<not> action_feas then Inr (vpl, None) else Inr (vpl, Some ?v))
                 = Inr (vpl', Some v)"
      using assms 1 2 3 4 5 True by (simp add: d)
    then obtain feas where f: "?chk = Inr feas" by (cases ?chk) simp_all
    have "feas" "vpl' = vpl" "v = ?v"
      using run f by (cases feas; simp)+
    then show ?thesis using that [OF 1 2 3 4 5, of ] True f by (auto split: if_splits)
  next
    case False
    obtain c where c: "map_of (predicate_add_sym_map_curr (lts st)) ?v = Some c"
      using assms 1 2 3 4 5 False
      by (cases "map_of (predicate_add_sym_map_curr (lts st)) ?v") (simp_all add: d)
    have z: "isZero (dd_and c (closed_dd st))"
      using assms 1 2 3 4 5 False c by (cases "isZero (dd_and c (closed_dd st))") (simp_all add: d)
    have run: "bnd ?chk (\<lambda>action_feas. if \<not> action_feas then Inr (vpl @ [c], None)
                                       else Inr (vpl @ [c], Some ?v))
                 = Inr (vpl', Some v)"
      using assms 1 2 3 4 5 False c z by (simp add: d)
    then obtain feas where f: "?chk = Inr feas" by (cases ?chk) simp_all
    have "feas" "vpl' = vpl @ [c]" "v = ?v"
      using run f by (cases feas; simp)+
    then show ?thesis using that [OF 1 2 3 4 5] False c z f by (auto split: if_splits)
  qed
qed

text \<open>The value of the check once the box and the destination are read from the name.\<close>

lemma check_exist_constraint_value:
  assumes "exist_constraint_target action_name = Inr (box_id, dloc)"
    and "''b'' @ show_nat box_id \<in> set boxes"
    and "\<forall>bid \<in> set (remove1 (''b'' @ show_nat box_id) boxes). on_pred bid dloc \<in> fst ` set pim"
  shows "check_exist_constraint pim boxes curr_state_lbl action_name =
           Inr (\<not> (\<exists>bid \<in> set (remove1 (''b'' @ show_nat box_id) boxes).
                     \<exists>i. map_of pim (on_pred bid dloc) = Some i \<and> i \<in> set curr_state_lbl))"
proof -
  let ?rest = "remove1 (''b'' @ show_nat box_id) boxes"
  have dom: "\<forall>k \<in> set (map (\<lambda>bid. on_pred bid dloc) ?rest). map_of pim k \<noteq> None"
    using assms(3) by (auto simp: map_of_eq_None_iff)
  have "set (map (\<lambda>k. the (map_of pim k)) (map (\<lambda>bid. on_pred bid dloc) ?rest)) \<inter> set curr_state_lbl \<noteq> {}
      \<longleftrightarrow> (\<exists>bid \<in> set ?rest. \<exists>i. map_of pim (on_pred bid dloc) = Some i \<and> i \<in> set curr_state_lbl)"
    using dom by fastforce
  then show ?thesis
    using assms(1,2) lookup_all_Inr [OF dom]
    by (simp add: check_exist_constraint_def Let_def)
qed

text \<open>
  C5. For the action \<^verbatim>\<open>(transfer b<i> l<j> l<k>)\<close> and for the action \<^verbatim>\<open>(release b<i> l<k>)\<close>,
  \<open>_check_exist_constraint\<close> reads the manipulated box \<open>i\<close> and the destination \<open>l<k>\<close> from
  the action name. When box \<open>b<i>\<close> is one of the boxes and every other box has an \<open>on\<close>
  predicate at \<open>l<k>\<close>, it returns False exactly when the \<open>on\<close> predicate of some other box at
  \<open>l<k>\<close> is a member of the state label passed in, and True otherwise. In the construction
  loop, with the constraint switched on, such an action goes on to create its edge only if
  the check returned True on the source tuple of the edge; the loop switches the
  constraint off for a single box.
\<close>

theorem check_exist_constraint_iff:
  assumes "action_name = transfer_name i j k \<or> action_name = release_name i k"
    and "''b'' @ show_nat i \<in> set boxes"
    and "\<forall>bid \<in> set (remove1 (''b'' @ show_nat i) boxes).
           on_pred bid (''l'' @ show_nat k) \<in> fst ` set pim"
  shows "exist_constraint_target action_name = Inr (i, ''l'' @ show_nat k)
       \<and> check_exist_constraint pim boxes curr_state_lbl action_name =
           Inr (\<not> (\<exists>bid \<in> set (remove1 (''b'' @ show_nat i) boxes).
                     \<exists>p. map_of pim (on_pred bid (''l'' @ show_nat k)) = Some p
                        \<and> p \<in> set curr_state_lbl))
       \<and> (distinct boxes \<longrightarrow>
            set (remove1 (''b'' @ show_nat i) boxes) = set boxes - {''b'' @ show_nat i})
       \<and> (add_exist_constr \<and> name action = action_name
            \<and> action_valid_pre boxes' add_exist_constr s action vpl st = Inr (vpl', Some v) \<longrightarrow>
            check_exist_constraint (pred_int_map (lts st)) boxes' v action_name = Inr True)
       \<and> (length boxes = 1 \<longrightarrow>
            create_weighted_transition_system_franka self boxes state_lbls add_exist_constr
              = create_weighted_transition_system_franka self boxes state_lbls False)"
proof (intro conjI impI)
  show t: "exist_constraint_target action_name = Inr (i, ''l'' @ show_nat k)"
    using assms(1) transfer_target [of i j k] release_target [of i k] by auto
  show "check_exist_constraint pim boxes curr_state_lbl action_name =
           Inr (\<not> (\<exists>bid \<in> set (remove1 (''b'' @ show_nat i) boxes).
                     \<exists>p. map_of pim (on_pred bid (''l'' @ show_nat k)) = Some p
                        \<and> p \<in> set curr_state_lbl))"
    by (rule check_exist_constraint_value [OF t assms(2,3)])
next
  assume "distinct boxes"
  then show "set (remove1 (''b'' @ show_nat i) boxes) = set boxes - {''b'' @ show_nat i}"
    by simp
next
  assume a: "add_exist_constr \<and> name action = action_name
            \<and> action_valid_pre boxes' add_exist_constr s action vpl st = Inr (vpl', Some v)"
  have n: "in_str ''transfer'' (name action) \<or> in_str ''release'' (name action)"
    using a assms(1) transfer_in_str [of i j k] release_in_str(2) [of i k] by auto
  from a have "action_valid_pre boxes' add_exist_constr s action vpl st = Inr (vpl', Some v)"
    by blast
  then have "check_exist_constraint (pred_int_map (lts st)) boxes' v (name action) = Inr True"
    by (rule action_valid_pre_SomeE) (use a n in blast)
  then show "check_exist_constraint (pred_int_map (lts st)) boxes' v action_name = Inr True"
    using a by simp
next
  assume "length boxes = 1"
  then show "create_weighted_transition_system_franka self boxes state_lbls add_exist_constr
              = create_weighted_transition_system_franka self boxes state_lbls False"
    by (simp add: create_weighted_transition_system_franka_def)
qed

text \<open>
  Two boxes, with box 1 at the destination: the transfer of box 0 to \<open>l1\<close> is refused when
  \<open>(on b1 l1)\<close> is in the label, the release of box 1 at \<open>l1\<close> when \<open>(on b0 l1)\<close> is. A loop
  state with a second box elsewhere lets the transfer through.
\<close>

definition ex_on :: "(string \<times> int) list" where
  "ex_on = [(''(on b0 l1)'', 5), (''(on b1 l1)'', 7)]"

definition ex_pim2 :: "(string \<times> int) list" where
  "ex_pim2 = [(''(holding b0 l0)'', 1), (''(on b0 l1)'', 5), (''(on b1 l2)'', 6), (''(on b1 l1)'', 7)]"

definition ex_transfer :: operator where
  "ex_transfer = \<lparr>name = ''(transfer b0 l0 l1)'', preconditions = [''(holding b0 l0)''],
                  add_effects = [''(on b0 l1)''], del_effects = [''(holding b0 l0)'']\<rparr>"

definition ex_st2 :: loop_state where
  "ex_st2 = \<lparr>lts = (projr ex_franka)\<lparr>pred_int_map := ex_pim2\<rparr>,
             open_list = (\<lambda>l. addZero 6), closed_dd = addZero 6, layer = 0\<rparr>"

lemma ex_names:
  "transfer_name 0 0 1 = ''(transfer b0 l0 l1)''" "release_name 1 1 = ''(release b1 l1)''"
  "show_nat 0 = ''0''" "show_nat 1 = ''1''"
  by code_simp+

lemma ex_st2_valid_pre:
  "action_valid_pre [''b0'', ''b1''] True [1, 6] ex_transfer [] ex_st2 = Inr ([], Some [1, 6])"
  by code_simp

theorem check_exist_constraint_iff_witness:
  "''(transfer b0 l0 l1)'' = transfer_name 0 0 1 \<and> ''(release b1 l1)'' = release_name 1 1
   \<and> ''b'' @ show_nat 0 \<in> set [''b0'', ''b1''] \<and> ''b'' @ show_nat 1 \<in> set [''b0'', ''b1'']
   \<and> remove1 (''b'' @ show_nat 0) [''b0'', ''b1''] = [''b1'']
   \<and> remove1 (''b'' @ show_nat 1) [''b0'', ''b1''] = [''b0'']
   \<and> on_pred ''b1'' (''l'' @ show_nat 1) \<in> fst ` set ex_on
   \<and> on_pred ''b0'' (''l'' @ show_nat 1) \<in> fst ` set ex_on
   \<and> distinct [''b0'', ''b1''] \<and> name ex_transfer = ''(transfer b0 l0 l1)''
   \<and> action_valid_pre [''b0'', ''b1''] True [1, 6] ex_transfer [] ex_st2 = Inr ([], Some [1, 6])
   \<and> length [''b0''] = 1
   \<and> exist_constraint_target ''(transfer b0 l0 l1)'' = Inr (0, ''l1'')
   \<and> check_exist_constraint ex_on [''b0'', ''b1''] [1, 7] ''(transfer b0 l0 l1)'' = Inr False
   \<and> check_exist_constraint ex_on [''b0'', ''b1''] [1, 5] ''(transfer b0 l0 l1)'' = Inr True
   \<and> exist_constraint_target ''(release b1 l1)'' = Inr (1, ''l1'')
   \<and> check_exist_constraint ex_on [''b0'', ''b1''] [1, 5] ''(release b1 l1)'' = Inr False
   \<and> check_exist_constraint ex_on [''b0'', ''b1''] [1, 7] ''(release b1 l1)'' = Inr True
   \<and> set (remove1 (''b'' @ show_nat 0) [''b0'', ''b1'']) = set [''b0'', ''b1''] - {''b'' @ show_nat 0}
   \<and> check_exist_constraint (pred_int_map (lts ex_st2)) [''b0'', ''b1''] [1, 6]
        ''(transfer b0 l0 l1)'' = Inr True
   \<and> (\<forall>self state_lbls.
         create_weighted_transition_system_franka self [''b0''] state_lbls True
           = create_weighted_transition_system_franka self [''b0''] state_lbls False)"
proof -
  have n1: "''(transfer b0 l0 l1)'' = transfer_name 0 0 1"
    and n2: "''(release b1 l1)'' = release_name 1 1"
    by (rule ex_names(1) [symmetric], rule ex_names(2) [symmetric])
  have b0: "''b'' @ show_nat 0 \<in> set [''b0'', ''b1'']"
    and b1: "''b'' @ show_nat 1 \<in> set [''b0'', ''b1'']"
    by (simp_all add: ex_names del: One_nat_def)
  have r0: "remove1 (''b'' @ show_nat 0) [''b0'', ''b1''] = [''b1'']"
    and r1: "remove1 (''b'' @ show_nat 1) [''b0'', ''b1''] = [''b0'']"
    by (simp_all add: ex_names del: One_nat_def)
  have o1: "on_pred ''b1'' (''l'' @ show_nat 1) \<in> fst ` set ex_on"
    and o0: "on_pred ''b0'' (''l'' @ show_nat 1) \<in> fst ` set ex_on"
    by (simp_all add: ex_names on_pred_def ex_on_def del: One_nat_def)
  have h0: "\<forall>bid \<in> set (remove1 (''b'' @ show_nat 0) [''b0'', ''b1'']).
              on_pred bid (''l'' @ show_nat 1) \<in> fst ` set ex_on"
    unfolding r0 using o1 by simp
  have h1: "\<forall>bid \<in> set (remove1 (''b'' @ show_nat 1) [''b0'', ''b1'']).
              on_pred bid (''l'' @ show_nat 1) \<in> fst ` set ex_on"
    unfolding r1 using o0 by simp
  have hs: "\<forall>bid \<in> set (remove1 (''b'' @ show_nat 0) [''b0'']).
              on_pred bid (''l'' @ show_nat 1) \<in> fst ` set ex_on"
    by (simp add: ex_names del: One_nat_def)
  have bs: "''b'' @ show_nat 0 \<in> set [''b0'']" by (simp add: ex_names del: One_nat_def)
  have d: "distinct [''b0'', ''b1'']" by simp
  have nm: "name ex_transfer = ''(transfer b0 l0 l1)''" by (simp add: ex_transfer_def)
  have l1: "length [''b0''] = 1" by simp
  have m: "map_of ex_on (on_pred ''b1'' (''l'' @ show_nat 1)) = Some 7"
    "map_of ex_on (on_pred ''b0'' (''l'' @ show_nat 1)) = Some 5"
    by (simp_all add: ex_names on_pred_def ex_on_def del: One_nat_def)
  note wt = check_exist_constraint_iff [where action_name = "''(transfer b0 l0 l1)''" and i = 0
      and j = 0 and k = 1 and boxes = "[''b0'', ''b1'']" and pim = ex_on, OF disjI1 [OF n1] b0 h0]
  note wr = check_exist_constraint_iff [where action_name = "''(release b1 l1)''" and i = 1
      and j = 0 and k = 1 and boxes = "[''b0'', ''b1'']" and pim = ex_on, OF disjI2 [OF n2] b1 h1]
  note ws = check_exist_constraint_iff [where action_name = "''(transfer b0 l0 l1)''" and i = 0
      and j = 0 and k = 1 and boxes = "[''b0'']" and pim = ex_on, OF disjI1 [OF n1] bs hs]
  have t1: "exist_constraint_target ''(transfer b0 l0 l1)'' = Inr (0, ''l1'')"
    using wt [THEN conjunct1] by (simp add: ex_names del: One_nat_def)
  have t2: "exist_constraint_target ''(release b1 l1)'' = Inr (1, ''l1'')"
    using wr [THEN conjunct1] by (simp add: ex_names del: One_nat_def)
  have e1: "\<exists>bid \<in> set (remove1 (''b'' @ show_nat 0) [''b0'', ''b1'']).
              \<exists>p. map_of ex_on (on_pred bid (''l'' @ show_nat 1)) = Some p \<and> p \<in> set [1, 7]"
    unfolding r0 using m(1) by simp
  have e2: "\<not> (\<exists>bid \<in> set (remove1 (''b'' @ show_nat 0) [''b0'', ''b1'']).
              \<exists>p. map_of ex_on (on_pred bid (''l'' @ show_nat 1)) = Some p \<and> p \<in> set [1, 5])"
    unfolding r0 using m(1) by simp
  have e3: "\<exists>bid \<in> set (remove1 (''b'' @ show_nat 1) [''b0'', ''b1'']).
              \<exists>p. map_of ex_on (on_pred bid (''l'' @ show_nat 1)) = Some p \<and> p \<in> set [1, 5]"
    unfolding r1 using m(2) by simp
  have e4: "\<not> (\<exists>bid \<in> set (remove1 (''b'' @ show_nat 1) [''b0'', ''b1'']).
              \<exists>p. map_of ex_on (on_pred bid (''l'' @ show_nat 1)) = Some p \<and> p \<in> set [1, 7])"
    unfolding r1 using m(2) by simp
  have c1: "check_exist_constraint ex_on [''b0'', ''b1''] [1, 7] ''(transfer b0 l0 l1)'' = Inr False"
    using wt [of "[1, 7]", THEN conjunct2, THEN conjunct1] e1 by (simp only: simp_thms)
  have c2: "check_exist_constraint ex_on [''b0'', ''b1''] [1, 5] ''(transfer b0 l0 l1)'' = Inr True"
    using wt [of "[1, 5]", THEN conjunct2, THEN conjunct1] e2 by (simp only: simp_thms)
  have c3: "check_exist_constraint ex_on [''b0'', ''b1''] [1, 5] ''(release b1 l1)'' = Inr False"
    using wr [of "[1, 5]", THEN conjunct2, THEN conjunct1] e3 by (simp only: simp_thms)
  have c4: "check_exist_constraint ex_on [''b0'', ''b1''] [1, 7] ''(release b1 l1)'' = Inr True"
    using wr [of "[1, 7]", THEN conjunct2, THEN conjunct1] e4 by (simp only: simp_thms)
  have s: "set (remove1 (''b'' @ show_nat 0) [''b0'', ''b1''])
             = set [''b0'', ''b1''] - {''b'' @ show_nat 0}"
    by (rule wt [THEN conjunct2, THEN conjunct2, THEN conjunct1, THEN mp, OF d])
  have v: "check_exist_constraint (pred_int_map (lts ex_st2)) [''b0'', ''b1''] [1, 6]
        ''(transfer b0 l0 l1)'' = Inr True"
    using wt [where add_exist_constr = True and action = ex_transfer and boxes' = "[''b0'', ''b1'']"
        and s = "[1, 6]" and vpl = "[]" and st = ex_st2 and vpl' = "[]" and v = "[1, 6]",
        THEN conjunct2, THEN conjunct2, THEN conjunct2, THEN conjunct1]
      nm ex_st2_valid_pre by blast
  have e: "\<forall>self state_lbls.
         create_weighted_transition_system_franka self [''b0''] state_lbls True
           = create_weighted_transition_system_franka self [''b0''] state_lbls False"
    using ws [THEN conjunct2, THEN conjunct2, THEN conjunct2, THEN conjunct2] l1 by blast
  show ?thesis
    by (intro conjI n1 n2 b0 b1 r0 r1 o1 o0 d nm ex_st2_valid_pre l1 t1 c1 c2 t2 c3 c4 s v e)
qed

section \<open>Swapped cubes and sets of current states\<close>

text \<open>The position of an assignment in the order of \<open>product10\<close>.\<close>

lemma foldl_index_shift:
  "foldl (\<lambda>a b. 2 * a + (if b then 0 else 1)) a \<rho>
     = a * 2 ^ length \<rho> + foldl (\<lambda>a b. 2 * a + (if b then 0 else (1::nat))) 0 \<rho>"
proof (induction \<rho> arbitrary: a)
  case Nil
  then show ?case by simp
next
  case (Cons b \<rho>)
  show ?case
    using Cons.IH [of "2 * a + (if b then 0 else 1)"] Cons.IH [of "if b then 0 else 1"]
    by (simp add: algebra_simps)
qed

lemma assignment_index_Cons:
  "assignment_index (b # \<rho>) = (if b then 0 else 2 ^ length \<rho>) + assignment_index \<rho>"
  using foldl_index_shift [of "if b then 0 else 1" \<rho>] by (simp add: assignment_index_def)

lemma assignment_index_less: "assignment_index \<rho> < 2 ^ length \<rho>"
proof (induction \<rho>)
  case Nil
  then show ?case by (simp add: assignment_index_def)
next
  case (Cons b \<rho>)
  then show ?case by (simp add: assignment_index_Cons)
qed

lemma product10_nth: "length \<rho> = n \<Longrightarrow> product10 n ! assignment_index \<rho> = \<rho>"
proof (induction n arbitrary: \<rho>)
  case 0
  then show ?case by (simp add: assignment_index_def)
next
  case (Suc n)
  then obtain b r where \<rho>: "\<rho> = b # r" and r: "length r = n" by (cases \<rho>) auto
  have lt: "assignment_index r < 2 ^ n" using assignment_index_less [of r] r by simp
  show ?case
  proof (cases b)
    case True
    then show ?thesis
      using Suc.IH [OF r] lt r
      by (simp add: \<rho> assignment_index_Cons nth_append length_product10)
  next
    case False
    then show ?thesis
      using Suc.IH [OF r] lt r
      by (simp add: \<rho> assignment_index_Cons nth_append length_product10)
  qed
qed

lemma tab_nth: "length \<rho> = N \<Longrightarrow> tab N g ! assignment_index \<rho> = g \<rho>"
  using assignment_index_less [of \<rho>] product10_nth [of \<rho> N]
  by (simp add: tab_def length_product10)

text \<open>The exchange of the paired variables of an assignment.\<close>

lemma length_swap_fold:
  "length (foldl (\<lambda>\<sigma> (x, y). \<sigma>[x := \<rho> ! y, y := \<rho> ! x]) \<sigma> ps) = length \<sigma>"
  by (induction ps arbitrary: \<sigma>) auto

lemma length_swap_assignment: "length (swap_assignment xs ys \<rho>) = length \<rho>"
  by (simp add: swap_assignment_def length_swap_fold)

lemma swap_fold_other:
  "v \<notin> fst ` set ps \<Longrightarrow> v \<notin> snd ` set ps \<Longrightarrow>
   foldl (\<lambda>\<sigma> (x, y). \<sigma>[x := \<rho> ! y, y := \<rho> ! x]) \<sigma> ps ! v = \<sigma> ! v"
proof (induction ps arbitrary: \<sigma>)
  case Nil
  then show ?case by simp
next
  case (Cons p ps)
  obtain x y where p: "p = (x, y)" by (cases p)
  have "v \<noteq> x" "v \<noteq> y" using Cons.prems p by auto
  moreover have "v \<notin> fst ` set ps" "v \<notin> snd ` set ps" using Cons.prems by auto
  ultimately show ?case using Cons.IH [of "\<sigma>[x := \<rho> ! y, y := \<rho> ! x]"] p by simp
qed

lemma swap_fold_snd:
  assumes "distinct (map fst ps @ map snd ps)" "(x, y) \<in> set ps" "y < length \<sigma>"
  shows "foldl (\<lambda>\<sigma> (x, y). \<sigma>[x := \<rho> ! y, y := \<rho> ! x]) \<sigma> ps ! y = \<rho> ! x"
  using assms
proof (induction ps arbitrary: \<sigma>)
  case Nil
  then show ?case by simp
next
  case (Cons p ps)
  obtain x' y' where p: "p = (x', y')" by (cases p)
  have d: "distinct (map fst ps @ map snd ps)" using Cons.prems(1) by auto
  show ?case
  proof (cases "(x, y) \<in> set ps")
    case True
    show ?thesis
      using Cons.IH [OF d True, of "\<sigma>[x' := \<rho> ! y', y' := \<rho> ! x']"] Cons.prems(3) p by simp
  next
    case False
    then have xy: "x' = x" "y' = y" using Cons.prems(2) p by auto
    have "y \<notin> fst ` set ps" "y \<notin> snd ` set ps" using Cons.prems(1) p xy by auto
    then have "foldl (\<lambda>\<sigma> (x, y). \<sigma>[x := \<rho> ! y, y := \<rho> ! x]) (\<sigma>[x := \<rho> ! y, y := \<rho> ! x]) ps ! y
                 = (\<sigma>[x := \<rho> ! y, y := \<rho> ! x]) ! y"
      by (rule swap_fold_other)
    then show ?thesis using Cons.prems(3) p xy by simp
  qed
qed

lemma swap_assignment_nth:
  assumes "distinct (xs @ ys)" "set ys \<subseteq> {..<N}" "length ys = length xs" "length \<rho> = N"
    and "j < length xs"
  shows "swap_assignment xs ys \<rho> ! (ys ! j) = \<rho> ! (xs ! j)"
proof -
  have m: "map fst (zip xs ys) = xs" "map snd (zip xs ys) = ys" using assms(3) by simp_all
  have d: "distinct (map fst (zip xs ys) @ map snd (zip xs ys))" unfolding m by (rule assms(1))
  have mem: "(xs ! j, ys ! j) \<in> set (zip xs ys)"
    using assms(3,5) by (auto simp: set_zip)
  have lt: "ys ! j < length \<rho>" using assms(2,3,4,5) by (auto simp: subset_iff)
  show ?thesis unfolding swap_assignment_def by (rule swap_fold_snd [OF d mem lt])
qed

lemma agrees_nth:
  "length bits = length vars \<Longrightarrow> agrees vars bits \<rho> \<longleftrightarrow> (\<forall>j < length vars. \<rho> ! (vars ! j) = bits ! j)"
  by (auto simp: agrees_def set_zip)

lemma agrees_swap:
  assumes "distinct (xs @ ys)" "set ys \<subseteq> {..<N}" "length ys = length xs" "length \<rho> = N"
    and "length bits = length xs"
  shows "agrees ys bits (swap_assignment xs ys \<rho>) \<longleftrightarrow> agrees xs bits \<rho>"
proof -
  have "agrees ys bits (swap_assignment xs ys \<rho>)
      \<longleftrightarrow> (\<forall>j < length ys. swap_assignment xs ys \<rho> ! (ys ! j) = bits ! j)"
    using assms(3,5) by (simp add: agrees_nth)
  also have "\<dots> \<longleftrightarrow> (\<forall>j < length xs. \<rho> ! (xs ! j) = bits ! j)"
    using swap_assignment_nth [OF assms(1-4)] assms(3) by simp
  also have "\<dots> \<longleftrightarrow> agrees xs bits \<rho>"
    using assms(5) by (simp add: agrees_nth)
  finally show ?thesis .
qed

lemma swapVariables_tab:
  "swapVariables N xs ys (tab N g) = tab N (\<lambda>\<rho>. g (swap_assignment xs ys \<rho>))"
proof -
  have "\<And>\<rho>. \<rho> \<in> set (product10 N) \<Longrightarrow>
          tab N g ! assignment_index (swap_assignment xs ys \<rho>) = g (swap_assignment xs ys \<rho>)"
    by (rule tab_nth) (simp add: length_swap_assignment set_product10)
  then show ?thesis by (simp add: swapVariables_def tab_def)
qed

lemma swapVariables_cube:
  assumes "distinct (xs @ ys)" "set ys \<subseteq> {..<N}" "length ys = length xs" "length bits = length xs"
  shows "swapVariables N xs ys (cube N ys bits) = cube N xs bits"
  unfolding cube_tab swapVariables_tab
  by (rule tab_cong) (simp add: agrees_swap [OF assms(1-3) _ assms(4)])

text \<open>
  A diagram is a set of current states when its value depends on the current-state
  variables only. \<open>dd_le\<close> is the pointwise order of two diagrams.
\<close>

definition only_on :: "nat \<Rightarrow> nat list \<Rightarrow> (bool list \<Rightarrow> nat) \<Rightarrow> bool" where
  "only_on N xs g \<longleftrightarrow>
     (\<forall>\<rho> \<rho>'. length \<rho> = N \<longrightarrow> length \<rho>' = N \<longrightarrow> (\<forall>v \<in> set xs. \<rho> ! v = \<rho>' ! v) \<longrightarrow> g \<rho> = g \<rho>')"

definition state_set :: "nat \<Rightarrow> nat list \<Rightarrow> dd \<Rightarrow> bool" where
  "state_set N xs f \<longleftrightarrow> (\<exists>g. f = tab N g \<and> only_on N xs g)"

lemma only_onD:
  "only_on N xs g \<Longrightarrow> length \<rho> = N \<Longrightarrow> length \<rho>' = N \<Longrightarrow> (\<forall>v \<in> set xs. \<rho> ! v = \<rho>' ! v)
   \<Longrightarrow> g \<rho> = g \<rho>'"
  unfolding only_on_def by blast

definition dd_le :: "dd \<Rightarrow> dd \<Rightarrow> bool" where
  "dd_le f g = list_all2 (\<le>) f g"

lemma state_setI:
  "f = tab N g \<Longrightarrow>
   (\<And>\<rho> \<rho>'. length \<rho> = N \<Longrightarrow> length \<rho>' = N \<Longrightarrow> (\<forall>v \<in> set xs. \<rho> ! v = \<rho>' ! v) \<Longrightarrow> g \<rho> = g \<rho>')
   \<Longrightarrow> state_set N xs f"
  unfolding state_set_def only_on_def by blast

lemma state_setE:
  assumes "state_set N xs f"
  obtains g where "f = tab N g" "only_on N xs g"
  using assms unfolding state_set_def by blast

lemma state_set_addZero: "state_set N xs (addZero N)"
  by (rule state_setI [OF addZero_tab]) simp

lemma state_set_and:
  assumes "state_set N xs f" "state_set N xs g"
  shows "state_set N xs (dd_and f g)"
proof -
  from assms(1) obtain f0 where f: "f = tab N f0"
    "only_on N xs f0"
    by (rule state_setE)
  from assms(2) obtain g0 where g: "g = tab N g0"
    "only_on N xs g0"
    by (rule state_setE)
  show ?thesis
  proof (rule state_setI)
    show "dd_and f g = tab N (\<lambda>\<rho>. f0 \<rho> * g0 \<rho>)" by (simp add: f(1) g(1) dd_and_tab)
  next
    fix \<rho> \<rho>' :: "bool list"
    assume "length \<rho> = N" "length \<rho>' = N" "\<forall>v \<in> set xs. \<rho> ! v = \<rho>' ! v"
    then show "f0 \<rho> * g0 \<rho> = f0 \<rho>' * g0 \<rho>'" using only_onD [OF f(2), of \<rho> \<rho>'] only_onD [OF g(2), of \<rho> \<rho>'] by simp
  qed
qed

lemma state_set_or:
  assumes "state_set N xs f" "state_set N xs g"
  shows "state_set N xs (dd_or f g)"
proof -
  from assms(1) obtain f0 where f: "f = tab N f0"
    "only_on N xs f0"
    by (rule state_setE)
  from assms(2) obtain g0 where g: "g = tab N g0"
    "only_on N xs g0"
    by (rule state_setE)
  show ?thesis
  proof (rule state_setI)
    show "dd_or f g = tab N (\<lambda>\<rho>. max (f0 \<rho>) (g0 \<rho>))" by (simp add: f(1) g(1) dd_or_tab)
  next
    fix \<rho> \<rho>' :: "bool list"
    assume "length \<rho> = N" "length \<rho>' = N" "\<forall>v \<in> set xs. \<rho> ! v = \<rho>' ! v"
    then show "max (f0 \<rho>) (g0 \<rho>) = max (f0 \<rho>') (g0 \<rho>')"
      using only_onD [OF f(2), of \<rho> \<rho>'] only_onD [OF g(2), of \<rho> \<rho>'] by simp
  qed
qed

lemma state_set_not:
  assumes "state_set N xs f"
  shows "state_set N xs (dd_not f)"
proof -
  from assms(1) obtain f0 where f: "f = tab N f0"
    "only_on N xs f0"
    by (rule state_setE)
  show ?thesis
  proof (rule state_setI)
    show "dd_not f = tab N (\<lambda>\<rho>. of_bool (f0 \<rho> = 0))" by (simp add: f(1) dd_not_tab)
  next
    fix \<rho> \<rho>' :: "bool list"
    assume "length \<rho> = N" "length \<rho>' = N" "\<forall>v \<in> set xs. \<rho> ! v = \<rho>' ! v"
    then show "(of_bool (f0 \<rho> = 0) :: nat) = of_bool (f0 \<rho>' = 0)"
      using only_onD [OF f(2), of \<rho> \<rho>'] by simp
  qed
qed

lemma state_set_cube: "state_set N xs (cube N xs bits)"
proof (rule state_setI [OF cube_tab])
  fix \<rho> \<rho>' :: "bool list"
  assume eq: "\<forall>v \<in> set xs. \<rho> ! v = \<rho>' ! v"
  have "agrees xs bits \<rho> = agrees xs bits \<rho>'"
    unfolding agrees_def
  proof (intro ball_cong refl)
    fix p assume p: "p \<in> set (zip xs bits)"
    then have "fst p \<in> set xs" by (metis prod.collapse set_zip_leftD)
    then show "(case p of (v, b) \<Rightarrow> \<rho> ! v = b) = (case p of (v, b) \<Rightarrow> \<rho>' ! v = b)"
      using eq by (cases p) simp
  qed
  then show "(of_bool (agrees xs bits \<rho>) :: nat) = of_bool (agrees xs bits \<rho>')" by simp
qed

lemma dd_le_tab: "dd_le (tab N f) (tab N g) \<longleftrightarrow> (\<forall>\<rho>. length \<rho> = N \<longrightarrow> f \<rho> \<le> g \<rho>)"
  by (auto simp: dd_le_def tab_def list_all2_map1 list_all2_map2 list_all2_same set_product10)

lemma dd_le_refl: "dd_le f f"
  by (simp add: dd_le_def list_all2_same)

lemma dd_le_trans: "dd_le f g \<Longrightarrow> dd_le g h \<Longrightarrow> dd_le f h"
  unfolding dd_le_def by (rule list_all2_trans) auto

lemma dd_le_or:
  assumes "state_set N xs f" "state_set N xs g"
  shows "dd_le f (dd_or f g)"
proof -
  from assms(1) obtain f0 where f: "f = tab N f0" by (rule state_setE)
  from assms(2) obtain g0 where g: "g = tab N g0" by (rule state_setE)
  show ?thesis by (simp add: f g dd_or_tab dd_le_tab)
qed

lemma dd_le_or2:
  assumes "state_set N xs f" "state_set N xs g"
  shows "dd_le g (dd_or f g)"
proof -
  from assms(1) obtain f0 where f: "f = tab N f0" by (rule state_setE)
  from assms(2) obtain g0 where g: "g = tab N g0" by (rule state_setE)
  show ?thesis by (simp add: f g dd_or_tab dd_le_tab)
qed

text \<open>A state that meets a set of current states lies in it, and outside its complement.\<close>

lemma cube_in_state_set:
  assumes "state_set N xs f" "length bits = length xs" "\<not> isZero (dd_and f (cube N xs bits))"
  shows "dd_le (cube N xs bits) f"
proof -
  from assms(1) obtain f0 where f: "f = tab N f0"
    "only_on N xs f0"
    by (rule state_setE)
  from assms(3) obtain \<rho> where \<rho>: "length \<rho> = N" "f0 \<rho> \<noteq> 0" "agrees xs bits \<rho>"
    by (auto simp: f(1) cube_tab dd_and_tab isZero_tab)
  have "\<And>\<rho>'. length \<rho>' = N \<Longrightarrow> agrees xs bits \<rho>' \<Longrightarrow> 1 \<le> f0 \<rho>'"
  proof -
    fix \<rho>' assume \<rho>': "length \<rho>' = N" "agrees xs bits \<rho>'"
    have "\<forall>v \<in> set xs. \<rho> ! v = \<rho>' ! v"
    proof
      fix v assume "v \<in> set xs"
      then obtain j where j: "j < length xs" "v = xs ! j" by (auto simp: in_set_conv_nth)
      then show "\<rho> ! v = \<rho>' ! v"
        using \<rho>(3) \<rho>'(2) assms(2) by (simp add: agrees_nth)
    qed
    then have "f0 \<rho> = f0 \<rho>'" using only_onD [OF f(2) \<rho>(1) \<rho>'(1)] by blast
    then show "1 \<le> f0 \<rho>'" using \<rho>(2) by simp
  qed
  then show ?thesis by (simp add: f(1) cube_tab dd_le_tab)
qed

lemma cube_not_in_complement:
  assumes "state_set N xs f" "state_set N xs g" "dd_le (cube N xs bits) f"
  shows "isZero (dd_and (dd_and g (dd_not f)) (cube N xs bits))"
proof -
  from assms(1) obtain f0 where f: "f = tab N f0" by (rule state_setE)
  from assms(2) obtain g0 where g: "g = tab N g0" by (rule state_setE)
  have le: "\<And>\<rho>. length \<rho> = N \<Longrightarrow> of_bool (agrees xs bits \<rho>) \<le> f0 \<rho>"
    using assms(3) by (simp add: f cube_tab dd_le_tab)
  have "\<And>\<rho>. length \<rho> = N \<Longrightarrow> g0 \<rho> * of_bool (f0 \<rho> = 0) * of_bool (agrees xs bits \<rho>) = 0"
  proof -
    fix \<rho> :: "bool list" assume "length \<rho> = N"
    then have "of_bool (agrees xs bits \<rho>) \<le> f0 \<rho>" by (rule le)
    then show "g0 \<rho> * of_bool (f0 \<rho> = 0) * of_bool (agrees xs bits \<rho>) = 0"
      by (cases "agrees xs bits \<rho>") auto
  qed
  then show ?thesis
    by (simp add: f g cube_tab dd_and_tab dd_not_tab isZero_tab)
qed

lemma cube_disjoint_complement:
  assumes "state_set N xs f" "state_set N xs g" "length bits = length xs"
    "\<not> isZero (dd_and (dd_and g (dd_not f)) (cube N xs bits))"
  shows "isZero (dd_and (cube N xs bits) f)"
proof -
  have s: "state_set N xs (dd_and g (dd_not f))"
    by (rule state_set_and [OF assms(2) state_set_not [OF assms(1)]])
  from assms(1) obtain f0 where f: "f = tab N f0" by (rule state_setE)
  from assms(2) obtain g0 where g: "g = tab N g0" by (rule state_setE)
  have "dd_le (cube N xs bits) (dd_and g (dd_not f))"
    by (rule cube_in_state_set [OF s assms(3,4)])
  then have le: "\<And>\<rho>. length \<rho> = N \<Longrightarrow> of_bool (agrees xs bits \<rho>) \<le> g0 \<rho> * of_bool (f0 \<rho> = 0)"
    by (simp add: f g cube_tab dd_and_tab dd_not_tab dd_le_tab)
  have "\<And>\<rho>. length \<rho> = N \<Longrightarrow> of_bool (agrees xs bits \<rho>) * f0 \<rho> = 0"
  proof -
    fix \<rho> :: "bool list" assume "length \<rho> = N"
    then have "of_bool (agrees xs bits \<rho>) \<le> g0 \<rho> * of_bool (f0 \<rho> = 0)" by (rule le)
    then show "of_bool (agrees xs bits \<rho>) * f0 \<rho> = 0"
      by (cases "agrees xs bits \<rho>"; cases "f0 \<rho> = 0") auto
  qed
  then show ?thesis
    by (simp add: f cube_tab dd_and_tab isZero_tab)
qed

section \<open>The invariant of the layered loop\<close>

text \<open>
  The encoder of an object is in order when its variables are distinct variables of the
  manager and its two maps send every tuple to the cube of one pattern, over the current
  and over the next variables.
\<close>

definition enc_ok :: "franka_ts \<Rightarrow> bool" where
  "enc_ok self \<longleftrightarrow>
     distinct (sym_add_vars_curr self @ sym_add_vars_next self)
   \<and> set (sym_add_vars_curr self @ sym_add_vars_next self) \<subseteq> {..<length (manager self)}
   \<and> length (sym_add_vars_next self) = length (sym_add_vars_curr self)
   \<and> (\<exists>d. distinct (map fst d) \<and> distinct (map snd d)
          \<and> (\<forall>(k, b) \<in> set d. length b = length (sym_add_vars_curr self))
          \<and> predicate_add_sym_map_curr self
               = encode_with (length (manager self)) (sym_add_vars_curr self) d
          \<and> predicate_add_sym_map_nxt self
               = encode_with (length (manager self)) (sym_add_vars_next self) d)"

text \<open>
  The invariant of the loop: the encoder is in order, and the closed set and every open
  set are sets of current states.
\<close>

definition loop_inv :: "loop_state \<Rightarrow> bool" where
  "loop_inv st \<longleftrightarrow>
     enc_ok (lts st)
   \<and> state_set (length (manager (lts st))) (sym_add_vars_curr (lts st)) (closed_dd st)
   \<and> (\<forall>l. state_set (length (manager (lts st))) (sym_add_vars_curr (lts st)) (open_list st l))"

text \<open>The set that a pass expands: the open set of the layer without the closed set.\<close>

definition open_layer :: "loop_state \<Rightarrow> dd" where
  "open_layer st = dd_and (open_list st (layer st)) (dd_not (closed_dd st))"

text \<open>The loop states that the passes of the \<^verbatim>\<open>while\<close> loop reach from a loop state.\<close>

inductive franka_reach :: "string list \<Rightarrow> bool \<Rightarrow> loop_state \<Rightarrow> loop_state \<Rightarrow> bool"
  for boxes :: "string list" and add_exist_constr :: bool and st0 :: loop_state where
  start: "franka_reach boxes add_exist_constr st0 st0"
| pass: "franka_reach boxes add_exist_constr st0 st \<Longrightarrow> \<not> isZero (open_list st (layer st))
         \<Longrightarrow> franka_layer boxes add_exist_constr st = Inr st'
         \<Longrightarrow> franka_reach boxes add_exist_constr st0 st'"

lemma enc_ok_same:
  assumes "same_encoding a b" "enc_ok a"
  shows "enc_ok b"
  using assms(2) unfolding enc_ok_def same_encoding_fields [OF assms(1)] .

lemma in_encode_with:
  "(k, c) \<in> set (encode_with N vars d) \<Longrightarrow> \<exists>bits. (k, bits) \<in> set d \<and> c = cube N vars bits"
  by (auto simp: encode_with_def)

lemma inv_of_SomeD: "inv_of d v = Some k \<Longrightarrow> (k, v) \<in> set d"
  unfolding inv_of_def by (drule map_of_SomeD) auto

lemma enc_ok_curr_cube:
  assumes "enc_ok self" "(t, c) \<in> set (predicate_add_sym_map_curr self)"
  shows "\<exists>bits. length bits = length (sym_add_vars_curr self)
           \<and> c = cube (length (manager self)) (sym_add_vars_curr self) bits"
proof -
  from assms(1) obtain d where d: "\<forall>(k, b) \<in> set d. length b = length (sym_add_vars_curr self)"
    "predicate_add_sym_map_curr self = encode_with (length (manager self)) (sym_add_vars_curr self) d"
    unfolding enc_ok_def by blast
  from assms(2) obtain bits where "(t, bits) \<in> set d"
    "c = cube (length (manager self)) (sym_add_vars_curr self) bits"
    unfolding d(2) by (blast dest: in_encode_with)
  then show ?thesis using d(1) by auto
qed

lemma enc_ok_nxt_cube:
  assumes "enc_ok self" "(t, c) \<in> set (predicate_add_sym_map_nxt self)"
  shows "\<exists>bits. length bits = length (sym_add_vars_curr self)
           \<and> c = cube (length (manager self)) (sym_add_vars_next self) bits"
proof -
  from assms(1) obtain d where d: "\<forall>(k, b) \<in> set d. length b = length (sym_add_vars_curr self)"
    "predicate_add_sym_map_nxt self = encode_with (length (manager self)) (sym_add_vars_next self) d"
    unfolding enc_ok_def by blast
  from assms(2) obtain bits where "(t, bits) \<in> set d"
    "c = cube (length (manager self)) (sym_add_vars_next self) bits"
    unfolding d(2) by (blast dest: in_encode_with)
  then show ?thesis using d(1) by auto
qed

lemma enc_ok_curr_state_set:
  assumes "enc_ok self" "(t, c) \<in> set (predicate_add_sym_map_curr self)"
  shows "state_set (length (manager self)) (sym_add_vars_curr self) c"
  using enc_ok_curr_cube [OF assms] state_set_cube by auto

lemma enc_ok_swapped_state_set:
  assumes "enc_ok self" "(t, c) \<in> set (predicate_add_sym_map_nxt self)"
  shows "state_set (length (manager self)) (sym_add_vars_curr self)
           (swapVariables (length (manager self)) (sym_add_vars_curr self) (sym_add_vars_next self) c)"
proof -
  from enc_ok_nxt_cube [OF assms] obtain bits where
    bits: "length bits = length (sym_add_vars_curr self)"
    "c = cube (length (manager self)) (sym_add_vars_next self) bits" by blast
  have v: "distinct (sym_add_vars_curr self @ sym_add_vars_next self)"
    "set (sym_add_vars_next self) \<subseteq> {..<length (manager self)}"
    "length (sym_add_vars_next self) = length (sym_add_vars_curr self)"
    using assms(1) unfolding enc_ok_def by auto
  show ?thesis
    unfolding bits(2) swapVariables_cube [OF v bits(1)] by (rule state_set_cube)
qed

text \<open>Every step of a pass keeps the invariant and does not shrink the closed set.\<close>

lemma action_successor_inv:
  assumes "action_successor action v st = Inr st'" "loop_inv st"
  shows "loop_inv st'"
  using assms(1)
proof (rule action_successor_InrE)
  fix add_tuple del_tuple next_sym_state self' next_tuple_lbl next_lbl_sym
  assume n: "map_of (predicate_add_sym_map_nxt (lts st)) (next_tuple_of v del_tuple add_tuple)
       = Some next_sym_state"
    and e: "add_edge_to_action_tr (lts st) (name action) v
       (next_tuple_of v del_tuple add_tuple) = Inr self'"
    and st': "st' = st\<lparr>lts := self'\<lparr>sym_add_state_labels :=
                    dd_or (sym_add_state_labels self')
                      (dd_and (swapVariables (length (manager (lts st))) (sym_add_vars_curr self')
                                 (sym_add_vars_next self') next_sym_state) next_lbl_sym)\<rparr>,
               open_list := (open_list st)
                 (layer st + 1 := dd_or (open_list st (layer st + 1))
                    (swapVariables (length (manager (lts st))) (sym_add_vars_curr self')
                       (sym_add_vars_next self') next_sym_state))\<rparr>"
  have fr: "same_encoding (lts st) (lts st')" by (rule action_successor_frame [OF assms(1)])
  have fe: "same_encoding (lts st) self'" by (rule add_edge_same_encoding [OF e])
  note f = same_encoding_fields [OF fr] and g = same_encoding_fields [OF fe]
  have ok: "enc_ok (lts st)" using assms(2) by (simp add: loop_inv_def)
  have sw: "state_set (length (manager (lts st))) (sym_add_vars_curr (lts st))
              (swapVariables (length (manager (lts st))) (sym_add_vars_curr (lts st))
                 (sym_add_vars_next (lts st)) next_sym_state)"
    by (rule enc_ok_swapped_state_set [OF ok map_of_SomeD [OF n]])
  have c: "closed_dd st' = closed_dd st" by (simp add: st')
  have o: "\<And>l. state_set (length (manager (lts st))) (sym_add_vars_curr (lts st)) (open_list st' l)"
  proof -
    fix l
    have old: "\<And>l. state_set (length (manager (lts st))) (sym_add_vars_curr (lts st)) (open_list st l)"
      using assms(2) by (simp add: loop_inv_def)
    show "state_set (length (manager (lts st))) (sym_add_vars_curr (lts st)) (open_list st' l)"
    proof (cases "l = layer st + 1")
      case True
      have "open_list st' l = dd_or (open_list st (layer st + 1))
              (swapVariables (length (manager (lts st))) (sym_add_vars_curr (lts st))
                 (sym_add_vars_next (lts st)) next_sym_state)"
        using True by (simp add: st' g)
      then show ?thesis using state_set_or [OF old sw] by simp
    next
      case False
      then have "open_list st' l = open_list st l" by (simp add: st')
      then show ?thesis using old by simp
    qed
  qed
  show "loop_inv st'"
    unfolding loop_inv_def f c
    using enc_ok_same [OF fr ok] assms(2) o by (simp add: loop_inv_def)
qed

lemma process_action_inv:
  assumes "process_action b a t action vs = Inr vs'" "loop_inv (snd vs)"
  shows "loop_inv (snd vs')"
  using assms
  by (auto simp: process_action_def bnd_Inr action_successor_inv split: prod.splits option.splits)

lemma foldM_process_action_inv:
  "foldM (process_action b a t) ops vs = Inr vs' \<Longrightarrow> loop_inv (snd vs) \<Longrightarrow> loop_inv (snd vs')"
proof (induction ops arbitrary: vs)
  case Nil
  then show ?case by simp
next
  case (Cons x ops)
  then obtain v1 where v1: "process_action b a t x vs = Inr v1"
    and rest: "foldM (process_action b a t) ops v1 = Inr vs'"
    by (auto split: sum.splits)
  show ?case by (rule Cons.IH [OF rest process_action_inv [OF v1 Cons.prems(2)]])
qed

lemma close_valid_pre_inv:
  assumes "close_valid_pre c st = Inr st'" "loop_inv st"
  shows "loop_inv st' \<and> dd_le (closed_dd st) (closed_dd st')"
proof -
  from assms(1) obtain t obs where t: "inv_of (predicate_add_sym_map_curr (lts st)) c = Some t"
    and st': "st' = st\<lparr>lts := (lts st)\<lparr>sym_add_state_labels := obs\<rparr>,
                        closed_dd := dd_or (closed_dd st) c\<rparr>"
    by (auto simp: close_valid_pre_def Let_def bnd_Inr split: option.splits)
  have fr: "same_encoding (lts st) (lts st')" by (rule close_valid_pre_frame [OF assms(1)])
  note f = same_encoding_fields [OF fr]
  have ok: "enc_ok (lts st)" using assms(2) by (simp add: loop_inv_def)
  have sc: "state_set (length (manager (lts st))) (sym_add_vars_curr (lts st)) c"
    by (rule enc_ok_curr_state_set [OF ok inv_of_SomeD [OF t]])
  have cl: "state_set (length (manager (lts st))) (sym_add_vars_curr (lts st)) (closed_dd st)"
    using assms(2) by (simp add: loop_inv_def)
  have c: "closed_dd st' = dd_or (closed_dd st) c" by (simp add: st')
  have o: "open_list st' = open_list st" by (simp add: st')
  have "loop_inv st'"
    unfolding loop_inv_def f c o
    using enc_ok_same [OF fr ok] assms(2) state_set_or [OF cl sc] by (simp add: loop_inv_def)
  moreover have "dd_le (closed_dd st) (closed_dd st')"
    unfolding c by (rule dd_le_or [OF cl sc])
  ultimately show ?thesis by simp
qed

lemma foldM_close_valid_pre_inv:
  "foldM close_valid_pre cs st = Inr st' \<Longrightarrow> loop_inv st
   \<Longrightarrow> loop_inv st' \<and> dd_le (closed_dd st) (closed_dd st')"
proof (induction cs arbitrary: st)
  case Nil
  then show ?case by (simp add: dd_le_refl)
next
  case (Cons c cs)
  then obtain s1 where s1: "close_valid_pre c st = Inr s1"
    and rest: "foldM close_valid_pre cs s1 = Inr st'"
    by (auto split: sum.splits)
  note a = close_valid_pre_inv [OF s1 Cons.prems(2)]
  note b = Cons.IH [OF rest a [THEN conjunct1]]
  show ?case using a b dd_le_trans by blast
qed

lemma process_state_inv:
  assumes "process_state b a c st = Inr st'" "loop_inv st"
  shows "loop_inv st' \<and> dd_le (closed_dd st) (closed_dd st')"
proof -
  from assms(1) obtain t vpl st1 where
    f1: "foldM (process_action b a t) (operators (lts st)) ([], st) = Inr (vpl, st1)"
    and f2: "foldM close_valid_pre vpl st1 = Inr st'"
    by (auto simp: process_state_def bnd_Inr split: option.splits)
  have i1: "loop_inv st1" using foldM_process_action_inv [OF f1] assms(2) by simp
  have c1: "closed_dd st1 = closed_dd st" using foldM_process_action_closed [OF f1] by simp
  show ?thesis using foldM_close_valid_pre_inv [OF f2 i1] c1 by simp
qed

lemma foldM_process_state_inv:
  "foldM (process_state b a) cs st = Inr st' \<Longrightarrow> loop_inv st
   \<Longrightarrow> loop_inv st' \<and> dd_le (closed_dd st) (closed_dd st')"
proof (induction cs arbitrary: st)
  case Nil
  then show ?case by (simp add: dd_le_refl)
next
  case (Cons c cs)
  then obtain s1 where s1: "process_state b a c st = Inr s1"
    and rest: "foldM (process_state b a) cs s1 = Inr st'"
    by (auto split: sum.splits)
  note a = process_state_inv [OF s1 Cons.prems(2)]
  note b = Cons.IH [OF rest a [THEN conjunct1]]
  show ?case using a b dd_le_trans by blast
qed

text \<open>What one pass does, when it expands and when it does not.\<close>

lemma franka_layer_empty:
  assumes "isZero (open_layer st)"
  shows "franka_layer b a st = Inr (st\<lparr>open_list := (open_list st)(layer st := open_layer st)\<rparr>)"
  using assms by (simp add: franka_layer_unfold open_layer_def Let_def)

lemma franka_layer_expandE:
  assumes "franka_layer b a st = Inr st'" "\<not> isZero (open_layer st)"
  obtains cs st2 where
    "get_states_from_dd (length (manager (lts st))) (sym_add_vars_curr (lts st)) (open_layer st) = Inr cs"
    "foldM (process_state b a) cs
       (st\<lparr>open_list := (open_list st)(layer st := open_layer st),
           closed_dd := dd_or (closed_dd st) (open_layer st)\<rparr>) = Inr st2"
    "st' = st2\<lparr>layer := layer st2 + 1\<rparr>"
  using assms by (auto simp: franka_layer_unfold open_layer_def Let_def bnd_Inr)

lemma loop_inv_open_layer:
  assumes "loop_inv st"
  shows "state_set (length (manager (lts st))) (sym_add_vars_curr (lts st)) (open_layer st)"
  unfolding open_layer_def
  using assms by (auto simp: loop_inv_def intro!: state_set_and state_set_not)

lemma loop_inv_subtract:
  assumes "loop_inv st"
  shows "loop_inv (st\<lparr>open_list := (open_list st)(layer st := open_layer st)\<rparr>)"
  using assms loop_inv_open_layer [OF assms] by (simp add: loop_inv_def)

lemma loop_inv_close_layer:
  assumes "loop_inv st"
  shows "loop_inv (st\<lparr>open_list := (open_list st)(layer st := open_layer st),
                      closed_dd := dd_or (closed_dd st) (open_layer st)\<rparr>)"
  using assms loop_inv_open_layer [OF assms]
  by (auto simp: loop_inv_def intro!: state_set_or)

lemma franka_layer_inv:
  assumes "franka_layer b a st = Inr st'" "loop_inv st"
  shows "loop_inv st' \<and> dd_le (closed_dd st) (closed_dd st')
       \<and> dd_le (dd_or (closed_dd st) (open_layer st)) (closed_dd st')"
proof (cases "isZero (open_layer st)")
  case True
  have cl: "state_set (length (manager (lts st))) (sym_add_vars_curr (lts st)) (closed_dd st)"
    using assms(2) by (simp add: loop_inv_def)
  have "st' = st\<lparr>open_list := (open_list st)(layer st := open_layer st)\<rparr>"
    using franka_layer_empty [OF True, of b a] assms(1) by simp
  moreover have "dd_or (closed_dd st) (open_layer st) = closed_dd st"
  proof -
    from cl obtain f0 where f: "closed_dd st = tab (length (manager (lts st))) f0"
      by (rule state_setE)
    from loop_inv_open_layer [OF assms(2)] obtain g0 where
      g: "open_layer st = tab (length (manager (lts st))) g0" by (rule state_setE)
    have "\<And>\<rho>. length \<rho> = length (manager (lts st)) \<Longrightarrow> g0 \<rho> = 0"
      using True by (simp add: g isZero_tab)
    then show ?thesis unfolding f g dd_or_tab by (intro tab_cong) simp
  qed
  ultimately show ?thesis using loop_inv_subtract [OF assms(2)] by (simp add: dd_le_refl)
next
  case False
  let ?st1 = "st\<lparr>open_list := (open_list st)(layer st := open_layer st),
                  closed_dd := dd_or (closed_dd st) (open_layer st)\<rparr>"
  from assms(1) False obtain cs st2 where
    f: "foldM (process_state b a) cs ?st1 = Inr st2" and st': "st' = st2\<lparr>layer := layer st2 + 1\<rparr>"
    by (rule franka_layer_expandE)
  have cl: "state_set (length (manager (lts st))) (sym_add_vars_curr (lts st)) (closed_dd st)"
    using assms(2) by (simp add: loop_inv_def)
  note i = foldM_process_state_inv [OF f loop_inv_close_layer [OF assms(2)]]
  have 1: "dd_le (closed_dd st) (dd_or (closed_dd st) (open_layer st))"
    by (rule dd_le_or [OF cl loop_inv_open_layer [OF assms(2)]])
  have 2: "dd_le (dd_or (closed_dd st) (open_layer st)) (closed_dd st2)" using i by simp
  have "loop_inv st'" using i st' by (simp add: loop_inv_def)
  then show ?thesis using 1 2 st' dd_le_trans by auto
qed

lemma franka_reach_inv:
  assumes "franka_reach b a st0 st" "loop_inv st0"
  shows "loop_inv st \<and> dd_le (closed_dd st0) (closed_dd st)"
  using assms
proof (induction rule: franka_reach.induct)
  case start
  then show ?case by (simp add: dd_le_refl)
next
  case (pass st st')
  note i = franka_layer_inv [OF pass.hyps(3) pass.IH [OF pass.prems, THEN conjunct1]]
  show ?case using i pass.IH [OF pass.prems] dd_le_trans by blast
qed

text \<open>The first loop state satisfies the invariant when the variables are in order.\<close>

lemma constructor_enc_ok:
  assumes "SymbolicWeightedFrankaTransitionSystem curr_states next_states lbl_states task_init
      task_goals task_facts task_operators weight_dict0 ts_state_map ts_states0 manager0 = Inr self"
    and "distinct (curr_states @ next_states)"
    and "set (curr_states @ next_states) \<subseteq> {..<length manager0}"
    and "length next_states = length curr_states"
  shows "enc_ok self"
  using assms(1)
proof (rule franka_constructor_InrE)
  fix m_curr m_nxt init_tuple c
  assume m: "create_sym_var_map (length manager0) curr_states next_states ts_states0 = Inr (m_curr, m_nxt)"
    and c: "map_of m_curr init_tuple = Some c"
    and self: "self = \<lparr>sym_add_vars_curr = curr_states, sym_add_vars_next = next_states,
              sym_add_vars_lbl = lbl_states, init = task_init, goal = task_goals,
              facts = task_facts, operators = task_operators, manager = manager0,
              weight_dict = weight_dict0,
              tr_action_idx_map = zip (map fst weight_dict0) [0..<length weight_dict0],
              sym_add_init_states = Some c, sym_add_goal_states = None,
              sym_add_state_labels = addZero (length manager0),
              sym_tr_actions = replicate (length weight_dict0) (addZero (length manager0)),
              predicate_add_sym_map_curr = m_curr, predicate_add_sym_map_nxt = m_nxt,
              predicate_add_sym_map_lbl = [],
              ts_states = ts_states0, pred_int_map = ts_state_map\<rparr>"
  have size: "length ts_states0 \<le> 2 ^ length curr_states"
  proof (rule ccontr)
    assume "\<not> length ts_states0 \<le> 2 ^ length curr_states"
    then have "create_sym_var_map (length manager0) curr_states next_states ts_states0 = Inl IndexError"
      by (intro create_sym_var_map_overflow) simp
    then show False using m by simp
  qed
  have ne: "curr_states \<noteq> []"
  proof
    assume e: "curr_states = []"
    from m obtain x where
      x: "fill_maps (length manager0) curr_states next_states x [] [] = Inr (m_curr, m_nxt)"
      by (auto simp: create_sym_var_map_def Let_def bnd_Inr split: if_splits)
    show False
    proof (cases x)
      case Nil
      then show ?thesis using x c by simp
    next
      case (Cons p r)
      then show ?thesis
        using x e by (cases p) (simp add: reduce_def literals_def split: if_splits)
    qed
  qed
  have v: "distinct curr_states" "distinct next_states" "set curr_states \<subseteq> {..<length manager0}"
    "set next_states \<subseteq> {..<length manager0}"
    using assms(2,3) by auto
  from create_sym_var_map_ok [OF ne assms(4) v size] obtain d where d:
    "distinct (map fst d)" "distinct (map snd d)"
    "\<forall>(k, b) \<in> set d. length b = length curr_states"
    "create_sym_var_map (length manager0) curr_states next_states ts_states0
       = Inr (encode_with (length manager0) curr_states d, encode_with (length manager0) next_states d)"
    by blast
  have "m_curr = encode_with (length manager0) curr_states d"
    "m_nxt = encode_with (length manager0) next_states d"
    using m d(4) by simp_all
  then show "enc_ok self"
    unfolding enc_ok_def using assms(2,3,4) d(1,2,3) by (auto simp: self)
qed

lemma franka_start_inv:
  assumes "franka_start self state_lbls = Inr st0" "enc_ok self"
  shows "loop_inv st0 \<and> closed_dd st0 = addZero (length (manager self)) \<and> layer st0 = 0"
proof -
  from assms(1) obtain self1 where
    c1: "create_sym_state_label_map self state_lbls = Inr self1"
    and r: "(case sym_add_init_states self1 of
               None \<Rightarrow> Inl KeyError
             | Some init_state_sym \<Rightarrow>
                 (case inv_of (predicate_add_sym_map_curr self1) init_state_sym of
                    None \<Rightarrow> Inl KeyError
                  | Some init_tuple \<Rightarrow>
                      bnd (get_conds_from_state (pred_int_map self1) init_tuple True False) (\<lambda>state_lbl.
                      bnd (get_sym_state_lbl_from_tuple self1 state_lbl) (\<lambda>init_lbl_sym.
                        Inr \<lparr>lts = self1\<lparr>sym_add_state_labels :=
                                    dd_or (sym_add_state_labels self1)
                                      (dd_and init_state_sym init_lbl_sym)\<rparr>,
                             open_list = (\<lambda>l. addZero (length (manager self1)))
                                (0 := dd_or (addZero (length (manager self1))) init_state_sym),
                             closed_dd = addZero (length (manager self1)),
                             layer = 0\<rparr>)))) = Inr st0"
    by (auto simp: franka_start_def Let_def bnd_Inr)
  from r obtain c where i1: "sym_add_init_states self1 = Some c"
    by (cases "sym_add_init_states self1") simp_all
  from r i1 obtain t where i2: "inv_of (predicate_add_sym_map_curr self1) c = Some t"
    by (cases "inv_of (predicate_add_sym_map_curr self1) c") simp_all
  from r i1 i2 obtain obs where
    st0: "st0 = \<lparr>lts = self1\<lparr>sym_add_state_labels := obs\<rparr>,
                     open_list = (\<lambda>l. addZero (length (manager self1)))
                        (0 := dd_or (addZero (length (manager self1))) c),
                     closed_dd = addZero (length (manager self1)), layer = 0\<rparr>"
    by (auto simp: bnd_Inr)
  note i = i1 i2
  have fr: "same_encoding self (lts st0)" by (rule franka_start_frame [OF assms(1)])
  note f = same_encoding_fields [OF fr]
  have l: "lts st0 = self1\<lparr>sym_add_state_labels := obs\<rparr>" by (simp add: st0)
  have m1: "manager self1 = manager self" "sym_add_vars_curr self1 = sym_add_vars_curr self"
    "predicate_add_sym_map_curr self1 = predicate_add_sym_map_curr self"
    using f(5,1,10) by (simp_all add: l)
  have ok: "enc_ok (lts st0)" by (rule enc_ok_same [OF fr assms(2)])
  have sc: "state_set (length (manager self)) (sym_add_vars_curr self) c"
    using enc_ok_curr_state_set [OF assms(2)] inv_of_SomeD [OF i(2)] by (simp add: m1)
  have z: "state_set (length (manager self)) (sym_add_vars_curr self) (addZero (length (manager self)))"
    by (rule state_set_addZero)
  have o: "\<And>l. state_set (length (manager self)) (sym_add_vars_curr self) (open_list st0 l)"
    using state_set_or [OF z sc] z by (simp add: st0 m1)
  have "loop_inv st0"
    unfolding loop_inv_def f using ok o z by (simp add: st0 m1)
  then show ?thesis by (simp add: st0 m1)
qed

section \<open>The closed set of the layered loop\<close>

text \<open>The steps of a pass leave the layer counter alone, and the passes the encoder.\<close>

lemma action_successor_layer:
  "action_successor action valid_pre st = Inr st' \<Longrightarrow> layer st' = layer st"
  by (auto simp: action_successor_def Let_def bnd_Inr split: option.splits)

lemma process_action_layer:
  "process_action b a t action vs = Inr vs' \<Longrightarrow> layer (snd vs') = layer (snd vs)"
  by (auto simp: process_action_def bnd_Inr action_successor_layer
        split: prod.splits option.splits)

lemma close_valid_pre_layer:
  "close_valid_pre c st = Inr st' \<Longrightarrow> layer st' = layer st"
  by (auto simp: close_valid_pre_def Let_def bnd_Inr split: option.splits)

lemma foldM_process_action_layer:
  "foldM (process_action b a t) ops vs = Inr vs' \<Longrightarrow> layer (snd vs') = layer (snd vs)"
proof (induction ops arbitrary: vs)
  case Nil
  then show ?case by simp
next
  case (Cons x ops)
  then obtain v1 where v1: "process_action b a t x vs = Inr v1"
    and rest: "foldM (process_action b a t) ops v1 = Inr vs'"
    by (auto split: sum.splits)
  show ?case using Cons.IH [OF rest] process_action_layer [OF v1] by simp
qed

lemma foldM_close_valid_pre_layer:
  "foldM close_valid_pre cs st = Inr st' \<Longrightarrow> layer st' = layer st"
proof (induction cs arbitrary: st)
  case Nil
  then show ?case by simp
next
  case (Cons c cs)
  then obtain s1 where s1: "close_valid_pre c st = Inr s1"
    and rest: "foldM close_valid_pre cs s1 = Inr st'"
    by (auto split: sum.splits)
  show ?case using Cons.IH [OF rest] close_valid_pre_layer [OF s1] by simp
qed

lemma process_state_layer:
  assumes "process_state b a c st = Inr st'"
  shows "layer st' = layer st"
proof -
  from assms obtain t vpl st1 where
    f1: "foldM (process_action b a t) (operators (lts st)) ([], st) = Inr (vpl, st1)"
    and f2: "foldM close_valid_pre vpl st1 = Inr st'"
    by (auto simp: process_state_def bnd_Inr split: option.splits)
  show ?thesis
    using foldM_process_action_layer [OF f1] foldM_close_valid_pre_layer [OF f2] by simp
qed

lemma foldM_process_state_layer:
  "foldM (process_state b a) cs st = Inr st' \<Longrightarrow> layer st' = layer st"
proof (induction cs arbitrary: st)
  case Nil
  then show ?case by simp
next
  case (Cons c cs)
  then obtain s1 where s1: "process_state b a c st = Inr s1"
    and rest: "foldM (process_state b a) cs s1 = Inr st'"
    by (auto split: sum.splits)
  show ?case using Cons.IH [OF rest] process_state_layer [OF s1] by simp
qed

lemma franka_reach_frame:
  "franka_reach b a st0 st \<Longrightarrow> same_encoding (lts st0) (lts st)"
proof (induction rule: franka_reach.induct)
  case start
  show ?case by (rule same_encoding_refl)
next
  case (pass st st')
  show ?case by (rule same_encoding_trans [OF pass.IH franka_layer_frame [OF pass.hyps(3)]])
qed

text \<open>The states that a pass expands are cubes of patterns, each listed once.\<close>

lemma get_states_from_dd_member:
  assumes "get_states_from_dd N xs f = Inr cs" "c \<in> set cs"
  shows "\<exists>bits. length bits = length xs \<and> c = cube N xs bits \<and> \<not> isZero (dd_and f c)"
  using assms
  by (auto simp: get_states_from_dd_def set_product10 split: if_splits)

lemma get_states_from_dd_distinct:
  assumes "get_states_from_dd N xs f = Inr cs" "distinct xs" "set xs \<subseteq> {..<N}"
  shows "distinct cs"
proof -
  have "inj_on (cube N xs) (set (product10 (length xs)))"
    by (rule inj_onI) (simp add: set_product10 cube_inj [OF assms(2,3)])
  then have "distinct (map (cube N xs) (product10 (length xs)))"
    by (simp add: distinct_map distinct_product10)
  then show ?thesis
    using assms(1) by (auto simp: get_states_from_dd_def split: if_splits)
qed

lemma isZero_dd_and_left: "isZero f \<Longrightarrow> isZero (dd_and f g)"
  by (auto simp: isZero_def dd_and_def list_all_iff dest: set_zip_leftD)

text \<open>The loop at a loop state whose open set is empty, or not, once the closed set is taken away.\<close>

lemma franka_loop_exit:
  assumes "isZero (open_layer st)"
  shows "\<exists>st'. franka_loop b a st = Inr st' \<and> closed_dd st' = closed_dd st
          \<and> layer st' = layer st \<and> lts st' = lts st"
proof (cases "isZero (open_list st (layer st))")
  case True
  then show ?thesis by (simp add: franka_loop.simps)
next
  case False
  let ?st1 = "st\<lparr>open_list := (open_list st)(layer st := open_layer st)\<rparr>"
  have "franka_loop b a st = franka_loop b a ?st1"
    using False franka_layer_empty [OF assms, of b a] by (simp add: franka_loop.simps [of b a st])
  also have "\<dots> = Inr ?st1"
    using assms by (simp add: franka_loop.simps [of b a ?st1])
  finally show ?thesis by simp
qed

lemma franka_loop_continue:
  assumes "\<not> isZero (open_layer st)"
  shows "franka_loop b a st = bnd (franka_layer b a st) (franka_loop b a)"
proof -
  have "\<not> isZero (open_list st (layer st))"
    using assms isZero_dd_and_left unfolding open_layer_def by blast
  then show ?thesis
    by (simp add: franka_loop.simps [of b a st] bnd_def)
qed

lemma franka_layer_expands:
  assumes "franka_layer b a st = Inr st'" "\<not> isZero (open_layer st)"
  shows "layer st' = layer st + 1 \<and> count0 (closed_dd st') < count0 (closed_dd st)"
proof -
  let ?st1 = "st\<lparr>open_list := (open_list st)(layer st := open_layer st),
                  closed_dd := dd_or (closed_dd st) (open_layer st)\<rparr>"
  from assms obtain cs st2 where
    f: "foldM (process_state b a) cs ?st1 = Inr st2" and st': "st' = st2\<lparr>layer := layer st2 + 1\<rparr>"
    by (rule franka_layer_expandE)
  have "count0 (closed_dd st2) \<le> count0 (closed_dd ?st1)"
    by (rule foldM_process_state_count0 [OF f])
  moreover have "count0 (closed_dd ?st1) < count0 (closed_dd st)"
    using count0_dd_or_less [of "open_list st (layer st)" "closed_dd st"] assms(2)
    by (simp add: open_layer_def)
  moreover have "layer st2 = layer st" using foldM_process_state_layer [OF f] by simp
  ultimately show ?thesis using st' by simp
qed

text \<open>What \<open>layer_states\<close> returns, in terms of the open set without the closed set.\<close>

lemma layer_states_SomeD:
  assumes "layer_states st = Inr (st1, Some cs)"
  shows "\<not> isZero (open_layer st)"
    "get_states_from_dd (length (manager (lts st))) (sym_add_vars_curr (lts st)) (open_layer st) = Inr cs"
    "st1 = st\<lparr>open_list := (open_list st)(layer st := open_layer st),
              closed_dd := dd_or (closed_dd st) (open_layer st)\<rparr>"
  using assms
  by (auto simp: layer_states_def open_layer_def Let_def bnd_Inr split: if_splits)

lemma layer_states_NoneD:
  assumes "layer_states st = Inr (st1, None)"
  shows "isZero (open_layer st)" "st1 = st\<lparr>open_list := (open_list st)(layer st := open_layer st)\<rparr>"
  using assms
  by (auto simp: layer_states_def open_layer_def Let_def bnd_Inr split: if_splits)

text \<open>A state that a pass expands is new, is closed by the pass, and is not expanded again.\<close>

lemma expanded_state:
  assumes inv: "loop_inv st" and l: "franka_layer b a st = Inr st'"
    and ls: "layer_states st = Inr (st1, Some cs)"
    and c: "c \<in> set cs"
  shows "isZero (dd_and c (closed_dd st)) \<and> dd_le c (closed_dd st')
       \<and> \<not> isZero (dd_and (open_list st1 (layer st1)) c) \<and> dd_le c (closed_dd st1)"
proof -
  let ?N = "length (manager (lts st))" and ?xs = "sym_add_vars_curr (lts st)"
  note cs = layer_states_SomeD(2) [OF ls] and s1 = layer_states_SomeD(3) [OF ls]
  from get_states_from_dd_member [OF cs c] obtain bits where
    bits: "length bits = length ?xs" "c = cube ?N ?xs bits" "\<not> isZero (dd_and (open_layer st) c)"
    by blast
  have cl: "state_set ?N ?xs (closed_dd st)" and op: "state_set ?N ?xs (open_list st (layer st))"
    using inv by (simp_all add: loop_inv_def)
  have ol: "state_set ?N ?xs (open_layer st)" by (rule loop_inv_open_layer [OF inv])
  have 1: "isZero (dd_and c (closed_dd st))"
    unfolding bits(2)
    using bits(3) by (intro cube_disjoint_complement [OF cl op bits(1)]) (simp add: open_layer_def bits(2))
  have 2: "dd_le c (open_layer st)"
    unfolding bits(2) using bits(3) by (intro cube_in_state_set [OF ol bits(1)]) (simp add: bits(2))
  have 3: "dd_le (open_layer st) (dd_or (closed_dd st) (open_layer st))"
    by (rule dd_le_or2 [OF cl ol])
  have 4: "dd_le (dd_or (closed_dd st) (open_layer st)) (closed_dd st')"
    using franka_layer_inv [OF l inv] by simp
  have 5: "dd_le c (closed_dd st')" using 2 3 4 dd_le_trans by blast
  have 6: "\<not> isZero (dd_and (open_list st1 (layer st1)) c)" using bits(3) by (simp add: s1)
  have "dd_le c (dd_or (closed_dd st) (open_layer st))" using 2 3 dd_le_trans by blast
  then have 7: "dd_le c (closed_dd st1)" by (simp add: s1)
  show ?thesis using 1 5 6 7 by simp
qed

lemma closed_state_not_expanded:
  assumes inv: "loop_inv st"
    and ls: "layer_states st = Inr (st1, Some cs)"
    and le: "dd_le c (closed_dd st)"
  shows "c \<notin> set cs"
proof
  let ?N = "length (manager (lts st))" and ?xs = "sym_add_vars_curr (lts st)"
  note cs = layer_states_SomeD(2) [OF ls]
  assume "c \<in> set cs"
  from get_states_from_dd_member [OF cs this] obtain bits where
    bits: "length bits = length ?xs" "c = cube ?N ?xs bits" "\<not> isZero (dd_and (open_layer st) c)"
    by blast
  have cl: "state_set ?N ?xs (closed_dd st)" and op: "state_set ?N ?xs (open_list st (layer st))"
    using inv by (simp_all add: loop_inv_def)
  have "isZero (dd_and (dd_and (open_list st (layer st)) (dd_not (closed_dd st))) (cube ?N ?xs bits))"
    using le by (intro cube_not_in_complement [OF cl op]) (simp add: bits(2))
  then show False using bits(3) by (simp add: open_layer_def bits(2))
qed

text \<open>
  C3. Take an object that the constructor built over distinct current and next variables
  of the manager, the first loop state of \<open>create_weighted_transition_system_franka\<close> on
  it, and any loop state \<open>st\<close> that the passes of the \<^verbatim>\<open>while\<close> loop reach from there.
  Then: (1) the closed set of \<open>st\<close> contains the closed set of the first loop state, and a
  pass from \<open>st\<close> yields a closed set that contains the closed set of \<open>st\<close>; (2) a pass from
  \<open>st\<close> is \<open>layer_states\<close> followed by the expansion of every state of the list \<open>cs\<close> that
  \<open>layer_states\<close> returns, and nothing else is expanded; the states of \<open>cs\<close> are listed
  once, each of them is in the open set of the layer as \<open>layer_states\<close> leaves it, none of
  them is in the closed set before the pass, each of them is in the closed set when the
  expansion starts and after the pass, and none of them is in the list of any later pass;
  (3) if the open set of the layer is empty once the closed set is taken away, the loop
  returns at \<open>st\<close> with the closed set, the layer and the object of \<open>st\<close>; if it is not
  empty, the loop runs one more pass, which moves to the next layer and makes the closed
  set strictly larger, and goes on from the loop state of that pass.
\<close>

theorem closed_set_monotone_expand_once:
  assumes "SymbolicWeightedFrankaTransitionSystem curr_states next_states lbl_states task_init
      task_goals task_facts task_operators weight_dict0 ts_state_map ts_states0 manager0 = Inr self"
    and "distinct (curr_states @ next_states)"
    and "set (curr_states @ next_states) \<subseteq> {..<length manager0}"
    and "length next_states = length curr_states"
    and "franka_start self state_lbls = Inr st0"
    and "franka_reach boxes add_exist_constr st0 st"
  shows "dd_le (closed_dd st0) (closed_dd st)
       \<and> (\<forall>st'. franka_layer boxes add_exist_constr st = Inr st'
             \<longrightarrow> dd_le (closed_dd st) (closed_dd st'))
       \<and> franka_layer boxes add_exist_constr st
           = bnd (layer_states st) (\<lambda>(st1, r).
               case r of
                 None \<Rightarrow> Inr st1
               | Some cs \<Rightarrow>
                   bnd (foldM (process_state boxes add_exist_constr) cs st1) (\<lambda>st2.
                     Inr (st2\<lparr>layer := layer st2 + 1\<rparr>)))
       \<and> (\<forall>st1 cs st'. layer_states st = Inr (st1, Some cs)
             \<and> franka_layer boxes add_exist_constr st = Inr st'
             \<longrightarrow> distinct cs
               \<and> (\<forall>c \<in> set cs. \<not> isZero (dd_and (open_list st1 (layer st1)) c)
                     \<and> isZero (dd_and c (closed_dd st))
                     \<and> dd_le c (closed_dd st1) \<and> dd_le c (closed_dd st')
                     \<and> (\<forall>st2 st3 cs2. franka_reach boxes add_exist_constr st' st2
                           \<and> layer_states st2 = Inr (st3, Some cs2)
                           \<longrightarrow> c \<notin> set cs2)))
       \<and> (isZero (open_layer st)
             \<longrightarrow> (\<exists>st'. franka_loop boxes add_exist_constr st = Inr st'
                     \<and> closed_dd st' = closed_dd st \<and> layer st' = layer st \<and> lts st' = lts st))
       \<and> (\<not> isZero (open_layer st)
             \<longrightarrow> franka_loop boxes add_exist_constr st
                   = bnd (franka_layer boxes add_exist_constr st) (franka_loop boxes add_exist_constr)
               \<and> (\<forall>st'. franka_layer boxes add_exist_constr st = Inr st'
                     \<longrightarrow> layer st' = layer st + 1
                       \<and> count0 (closed_dd st') < count0 (closed_dd st)))"
proof -
  have ok: "enc_ok self" by (rule constructor_enc_ok [OF assms(1-4)])
  have self: "manager self = manager0" "sym_add_vars_curr self = curr_states"
    using assms(1) by (rule franka_constructor_InrE, simp)+
  have inv0: "loop_inv st0" using franka_start_inv [OF assms(5) ok] by simp
  note r = franka_reach_inv [OF assms(6) inv0]
  have inv: "loop_inv st" using r by simp
  have fr: "same_encoding self (lts st)"
    by (rule same_encoding_trans [OF franka_start_frame [OF assms(5)] franka_reach_frame [OF assms(6)]])
  have f: "manager (lts st) = manager0" "sym_add_vars_curr (lts st) = curr_states"
    using same_encoding_fields(5,1) [OF fr] self by simp_all
  have v: "distinct curr_states" "set curr_states \<subseteq> {..<length manager0}"
    using assms(2,3) by auto
  have 1: "dd_le (closed_dd st0) (closed_dd st)" using r by simp
  have 2: "\<forall>st'. franka_layer boxes add_exist_constr st = Inr st'
             \<longrightarrow> dd_le (closed_dd st) (closed_dd st')"
    using franka_layer_inv [OF _ inv] by blast
  have d: "franka_layer boxes add_exist_constr st
           = bnd (layer_states st) (\<lambda>(st1, r).
               case r of
                 None \<Rightarrow> Inr st1
               | Some cs \<Rightarrow>
                   bnd (foldM (process_state boxes add_exist_constr) cs st1) (\<lambda>st2.
                     Inr (st2\<lparr>layer := layer st2 + 1\<rparr>)))"
    by (rule franka_layer_def)
  have 3: "\<forall>st1 cs st'. layer_states st = Inr (st1, Some cs)
             \<and> franka_layer boxes add_exist_constr st = Inr st'
             \<longrightarrow> distinct cs
               \<and> (\<forall>c \<in> set cs. \<not> isZero (dd_and (open_list st1 (layer st1)) c)
                     \<and> isZero (dd_and c (closed_dd st))
                     \<and> dd_le c (closed_dd st1) \<and> dd_le c (closed_dd st')
                     \<and> (\<forall>st2 st3 cs2. franka_reach boxes add_exist_constr st' st2
                           \<and> layer_states st2 = Inr (st3, Some cs2)
                           \<longrightarrow> c \<notin> set cs2))"
  proof (intro allI impI, elim conjE)
    fix st1 cs st'
    assume ls: "layer_states st = Inr (st1, Some cs)"
      and l: "franka_layer boxes add_exist_constr st = Inr st'"
    have cs: "get_states_from_dd (length manager0) curr_states (open_layer st) = Inr cs"
      using layer_states_SomeD(2) [OF ls] by (simp add: f)
    have inv': "loop_inv st'" using franka_layer_inv [OF l inv] by simp
    have dc: "distinct cs" by (rule get_states_from_dd_distinct [OF cs v])
    have "\<forall>c \<in> set cs. \<not> isZero (dd_and (open_list st1 (layer st1)) c)
            \<and> isZero (dd_and c (closed_dd st))
            \<and> dd_le c (closed_dd st1) \<and> dd_le c (closed_dd st')
            \<and> (\<forall>st2 st3 cs2. franka_reach boxes add_exist_constr st' st2
                  \<and> layer_states st2 = Inr (st3, Some cs2)
                  \<longrightarrow> c \<notin> set cs2)"
    proof
      fix c assume c: "c \<in> set cs"
      note e = expanded_state [OF inv l ls c]
      have "\<forall>st2 st3 cs2. franka_reach boxes add_exist_constr st' st2
                  \<and> layer_states st2 = Inr (st3, Some cs2)
                  \<longrightarrow> c \<notin> set cs2"
      proof (intro allI impI, elim conjE)
        fix st2 st3 cs2
        assume r2: "franka_reach boxes add_exist_constr st' st2"
          and ls2: "layer_states st2 = Inr (st3, Some cs2)"
        note i2 = franka_reach_inv [OF r2 inv']
        have "dd_le c (closed_dd st2)" using e i2 dd_le_trans by blast
        then show "c \<notin> set cs2"
          by (rule closed_state_not_expanded [OF i2 [THEN conjunct1] ls2])
      qed
      with e show "\<not> isZero (dd_and (open_list st1 (layer st1)) c)
            \<and> isZero (dd_and c (closed_dd st))
            \<and> dd_le c (closed_dd st1) \<and> dd_le c (closed_dd st')
            \<and> (\<forall>st2 st3 cs2. franka_reach boxes add_exist_constr st' st2
                  \<and> layer_states st2 = Inr (st3, Some cs2)
                  \<longrightarrow> c \<notin> set cs2)"
        by simp
    qed
    with dc show "distinct cs
               \<and> (\<forall>c \<in> set cs. \<not> isZero (dd_and (open_list st1 (layer st1)) c)
                     \<and> isZero (dd_and c (closed_dd st))
                     \<and> dd_le c (closed_dd st1) \<and> dd_le c (closed_dd st')
                     \<and> (\<forall>st2 st3 cs2. franka_reach boxes add_exist_constr st' st2
                           \<and> layer_states st2 = Inr (st3, Some cs2)
                           \<longrightarrow> c \<notin> set cs2))"
      by simp
  qed
  have 4: "isZero (open_layer st)
             \<longrightarrow> (\<exists>st'. franka_loop boxes add_exist_constr st = Inr st'
                     \<and> closed_dd st' = closed_dd st \<and> layer st' = layer st \<and> lts st' = lts st)"
    using franka_loop_exit by blast
  have 5: "\<not> isZero (open_layer st)
             \<longrightarrow> franka_loop boxes add_exist_constr st
                   = bnd (franka_layer boxes add_exist_constr st) (franka_loop boxes add_exist_constr)
               \<and> (\<forall>st'. franka_layer boxes add_exist_constr st = Inr st'
                     \<longrightarrow> layer st' = layer st + 1
                       \<and> count0 (closed_dd st') < count0 (closed_dd st))"
    using franka_loop_continue franka_layer_expands by blast
  show ?thesis by (intro conjI 1 2 d 3 4 5)
qed

lemma not_isl_bnd: "\<not> isl (bnd m f) \<Longrightarrow> \<exists>x. m = Inr x \<and> \<not> isl (f x)"
  by (cases m) simp_all

text \<open>
  The run on the example object: two passes, after which the open set of layer 2 is empty.
\<close>

definition ex_trace_check ::
  "loop_state \<Rightarrow> loop_state \<Rightarrow> loop_state \<Rightarrow> dd list option \<Rightarrow> dd list option \<Rightarrow> bool" where
  "ex_trace_check st0 st1 st2 r0 r1 \<longleftrightarrow>
     \<not> isZero (open_list st0 (layer st0)) \<and> \<not> isZero (open_list st1 (layer st1))
   \<and> \<not> isZero (open_layer st0) \<and> isZero (open_layer st2)
   \<and> (case r0 of None \<Rightarrow> False | Some cs \<Rightarrow> cs \<noteq> [])
   \<and> (case r1 of None \<Rightarrow> False | Some cs \<Rightarrow> cs \<noteq> [])"

lemma ex_trace_ok:
  "\<not> isl (bnd ex_franka (\<lambda>self.
          bnd (franka_start self ex_lbls) (\<lambda>st0.
          bnd (franka_layer [''b0''] False st0) (\<lambda>st1.
          bnd (franka_layer [''b0''] False st1) (\<lambda>st2.
          bnd (layer_states st0) (\<lambda>p0.
          bnd (layer_states st1) (\<lambda>p1.
            if ex_trace_check st0 st1 st2 (snd p0) (snd p1)
            then Inr True else Inl AssertionError)))))))"
  by code_simp

theorem closed_set_monotone_expand_once_witness:
  "\<exists>self st0 st1 st2 s0 s1 cs cs2.
      SymbolicWeightedFrankaTransitionSystem [0, 2] [1, 3] [4, 5]
        [''(gripper free)'', ''(on b0 l0)'', ''(ready l0)'', ''(to-obj b0 l0)''] [''(holding b0 l0)'']
        (map fst ex_pim) [ex_grasp] [(''(grasp b0 l0)'', addConst 6 2)] ex_pim
        [[0, 2, 3, 4], [2, 3, 4], [1], [0, 1]] ex_mgr = Inr self
    \<and> distinct ([0, 2] @ [1, 3::nat]) \<and> set ([0, 2] @ [1, 3::nat]) \<subseteq> {..<length ex_mgr}
    \<and> length [1, 3::nat] = length [0, 2::nat]
    \<and> franka_start self ex_lbls = Inr st0
    \<and> franka_reach [''b0''] False st0 st0 \<and> franka_reach [''b0''] False st0 st2
    \<and> franka_layer [''b0''] False st0 = Inr st1
    \<and> layer_states st0 = Inr (s0, Some cs) \<and> cs \<noteq> [] \<and> hd cs \<in> set cs
    \<and> franka_reach [''b0''] False st1 st1
    \<and> layer_states st1 = Inr (s1, Some cs2) \<and> cs2 \<noteq> []
    \<and> \<not> isZero (open_layer st0) \<and> isZero (open_layer st2)
    \<and> dd_le (closed_dd st0) (closed_dd st1)
    \<and> dd_le (closed_dd st0) (closed_dd st2)
    \<and> distinct cs
    \<and> \<not> isZero (dd_and (open_list s0 (layer s0)) (hd cs))
    \<and> isZero (dd_and (hd cs) (closed_dd st0))
    \<and> dd_le (hd cs) (closed_dd s0) \<and> dd_le (hd cs) (closed_dd st1)
    \<and> hd cs \<notin> set cs2
    \<and> franka_loop [''b0''] False st0
         = bnd (franka_layer [''b0''] False st0) (franka_loop [''b0''] False)
    \<and> layer st1 = layer st0 + 1 \<and> count0 (closed_dd st1) < count0 (closed_dd st0)
    \<and> (\<exists>st'. franka_loop [''b0''] False st2 = Inr st'
          \<and> closed_dd st' = closed_dd st2 \<and> layer st' = layer st2 \<and> lts st' = lts st2)"
proof -
  from not_isl_bnd [OF ex_trace_ok] obtain self where s: "ex_franka = Inr self"
    and r0: "\<not> isl (bnd (franka_start self ex_lbls) (\<lambda>st0.
          bnd (franka_layer [''b0''] False st0) (\<lambda>st1.
          bnd (franka_layer [''b0''] False st1) (\<lambda>st2.
          bnd (layer_states st0) (\<lambda>p0.
          bnd (layer_states st1) (\<lambda>p1.
            if ex_trace_check st0 st1 st2 (snd p0) (snd p1)
            then Inr True else Inl AssertionError))))))"
    by blast
  from not_isl_bnd [OF r0] obtain st0 where s0: "franka_start self ex_lbls = Inr st0"
    and r1: "\<not> isl (bnd (franka_layer [''b0''] False st0) (\<lambda>st1.
          bnd (franka_layer [''b0''] False st1) (\<lambda>st2.
          bnd (layer_states st0) (\<lambda>p0.
          bnd (layer_states st1) (\<lambda>p1.
            if ex_trace_check st0 st1 st2 (snd p0) (snd p1)
            then Inr True else Inl AssertionError)))))"
    by blast
  from not_isl_bnd [OF r1] obtain st1 where l0: "franka_layer [''b0''] False st0 = Inr st1"
    and r2: "\<not> isl (bnd (franka_layer [''b0''] False st1) (\<lambda>st2.
          bnd (layer_states st0) (\<lambda>p0.
          bnd (layer_states st1) (\<lambda>p1.
            if ex_trace_check st0 st1 st2 (snd p0) (snd p1)
            then Inr True else Inl AssertionError))))"
    by blast
  from not_isl_bnd [OF r2] obtain st2 where l1: "franka_layer [''b0''] False st1 = Inr st2"
    and r3: "\<not> isl (bnd (layer_states st0) (\<lambda>p0.
          bnd (layer_states st1) (\<lambda>p1.
            if ex_trace_check st0 st1 st2 (snd p0) (snd p1)
            then Inr True else Inl AssertionError)))"
    by blast
  from not_isl_bnd [OF r3] obtain p0 where q0: "layer_states st0 = Inr p0"
    and r4: "\<not> isl (bnd (layer_states st1) (\<lambda>p1.
            if ex_trace_check st0 st1 st2 (snd p0) (snd p1)
            then Inr True else Inl AssertionError))"
    by blast
  from not_isl_bnd [OF r4] obtain p1 where q1: "layer_states st1 = Inr p1"
    and r5: "\<not> isl (if ex_trace_check st0 st1 st2 (snd p0) (snd p1)
            then Inr True else (Inl AssertionError :: error + bool))"
    by blast
  have chk: "ex_trace_check st0 st1 st2 (snd p0) (snd p1)"
    using r5 by (simp split: if_splits)
  obtain cs where c0: "snd p0 = Some cs" "cs \<noteq> []"
    using chk by (cases "snd p0") (simp_all add: ex_trace_check_def)
  obtain cs2 where c1: "snd p1 = Some cs2" "cs2 \<noteq> []"
    using chk by (cases "snd p1") (simp_all add: ex_trace_check_def)
  have ls0: "layer_states st0 = Inr (fst p0, Some cs)" using q0 c0(1) by (cases p0) simp
  have ls1: "layer_states st1 = Inr (fst p1, Some cs2)" using q1 c1(1) by (cases p1) simp
  have p: "\<not> isZero (open_list st0 (layer st0))" "\<not> isZero (open_list st1 (layer st1))"
    "\<not> isZero (open_layer st0)" "isZero (open_layer st2)"
    using chk by (simp_all add: ex_trace_check_def)
  have h1: "SymbolicWeightedFrankaTransitionSystem [0, 2] [1, 3] [4, 5]
        [''(gripper free)'', ''(on b0 l0)'', ''(ready l0)'', ''(to-obj b0 l0)''] [''(holding b0 l0)'']
        (map fst ex_pim) [ex_grasp] [(''(grasp b0 l0)'', addConst 6 2)] ex_pim
        [[0, 2, 3, 4], [2, 3, 4], [1], [0, 1]] ex_mgr = Inr self"
    using s by (simp add: ex_franka_def)
  have h2: "distinct ([0, 2] @ [1, 3::nat])" by simp
  have h3: "set ([0, 2] @ [1, 3::nat]) \<subseteq> {..<length ex_mgr}" by (simp add: ex_mgr_def)
  have h4: "length [1, 3::nat] = length [0, 2::nat]" by simp
  have g0: "franka_reach [''b0''] False st0 st0" by (rule franka_reach.start)
  have g1: "franka_reach [''b0''] False st0 st1" by (rule franka_reach.pass [OF g0 p(1) l0])
  have g2: "franka_reach [''b0''] False st0 st2" by (rule franka_reach.pass [OF g1 p(2) l1])
  have g3: "franka_reach [''b0''] False st1 st1" by (rule franka_reach.start)
  note w0 = closed_set_monotone_expand_once [OF h1 h2 h3 h4 s0 g0]
  note w2 = closed_set_monotone_expand_once [OF h1 h2 h3 h4 s0 g2]
  have a1: "dd_le (closed_dd st0) (closed_dd st1)"
    using w0 [THEN conjunct2, THEN conjunct1] l0 by blast
  have a2: "dd_le (closed_dd st0) (closed_dd st2)" by (rule w2 [THEN conjunct1])
  have hc: "hd cs \<in> set cs" using c0(2) by simp
  have a3: "distinct cs
    \<and> (\<forall>c \<in> set cs. \<not> isZero (dd_and (open_list (fst p0) (layer (fst p0))) c)
          \<and> isZero (dd_and c (closed_dd st0))
          \<and> dd_le c (closed_dd (fst p0)) \<and> dd_le c (closed_dd st1)
          \<and> (\<forall>st2 st3 cs2. franka_reach [''b0''] False st1 st2
                \<and> layer_states st2 = Inr (st3, Some cs2)
                \<longrightarrow> c \<notin> set cs2))"
    using w0 [THEN conjunct2, THEN conjunct2, THEN conjunct2, THEN conjunct1, rule_format,
        of "fst p0" cs st1] ls0 l0
    by blast
  have b1: "\<not> isZero (dd_and (open_list (fst p0) (layer (fst p0))) (hd cs))"
    "isZero (dd_and (hd cs) (closed_dd st0))"
    "dd_le (hd cs) (closed_dd (fst p0))" "dd_le (hd cs) (closed_dd st1)"
    using a3 hc by blast+
  have b2: "hd cs \<notin> set cs2" using a3 hc g3 ls1 by blast
  have a4: "franka_loop [''b0''] False st0
         = bnd (franka_layer [''b0''] False st0) (franka_loop [''b0''] False)
    \<and> (\<forall>st'. franka_layer [''b0''] False st0 = Inr st'
          \<longrightarrow> layer st' = layer st0 + 1 \<and> count0 (closed_dd st') < count0 (closed_dd st0))"
    by (rule w0 [THEN conjunct2, THEN conjunct2, THEN conjunct2, THEN conjunct2, THEN conjunct2,
          THEN mp, OF p(3)])
  have a5: "layer st1 = layer st0 + 1 \<and> count0 (closed_dd st1) < count0 (closed_dd st0)"
    using a4 l0 by blast
  have a6: "\<exists>st'. franka_loop [''b0''] False st2 = Inr st'
          \<and> closed_dd st' = closed_dd st2 \<and> layer st' = layer st2 \<and> lts st' = lts st2"
    by (rule w2 [THEN conjunct2, THEN conjunct2, THEN conjunct2, THEN conjunct2, THEN conjunct1,
          THEN mp, OF p(4)])
  show ?thesis
    by (intro exI [of _ self] exI [of _ st0] exI [of _ st1] exI [of _ st2] exI [of _ "fst p0"]
          exI [of _ "fst p1"] exI [of _ cs] exI [of _ cs2]
          conjI h1 h2 h3 h4 s0 g0 g2 l0 ls0 c0(2) hc g3 ls1 c1(2) p(3) p(4) a1 a2
          a3 [THEN conjunct1] b1 b2 a4 [THEN conjunct1]
          a5 [THEN conjunct1] a5 [THEN conjunct2] a6)
qed

end
